theory Spec2Isabelle
  imports
    Main
    "HOL-Library.AList"
    "HOL-Library.Mapping"
    "HOL-Library.AList_Mapping"
    "HOL-Library.Char_ord"
begin

section \<open>The struct encoder of the schema package\<close>

text \<open>
  The package turns a Go struct into url values: \<^verbatim>\<open>encode\<close> walks the fields of a struct
  through Go's reflection, resolves an encoder function for the type of each field
  (\<^verbatim>\<open>typeEncoder\<close>), and stores the strings in a collector (\<^verbatim>\<open>UrlValues\<close>) that remembers
  the order of its keys. A second source file holds a list-based \<^verbatim>\<open>UrlValues\<close>.

  The embedding is shallow. A \<^verbatim>\<open>reflect.Type\<close> is a term of \<open>rtype\<close>, a valid
  \<^verbatim>\<open>reflect.Value\<close> a term of \<open>rvalue\<close> that carries its type, and a \<^verbatim>\<open>reflect.Value\<close> that
  may be the zero Value an \<open>rvalue option\<close>; the flag that tells whether a value was read
  through an unexported field is passed beside the value. Go maps are \<open>mapping\<close>s, the composite error
  (a map from strings to errors) is an association list with one entry for each key.
  A panic is the result \<open>None\<close>: an encoder function is a function to
  \<open>string option\<close>, and \<^verbatim>\<open>encode\<close> returns \<open>None\<close> when a call inside it panics.
\<close>

subsection \<open>Functions of Go's standard library\<close>

text \<open>\<^verbatim>\<open>strconv.FormatBool\<close>, \<^verbatim>\<open>strconv.FormatUint\<close> and \<^verbatim>\<open>strconv.FormatInt\<close> in base 10.\<close>

definition FormatBool :: "bool \<Rightarrow> string" where
  "FormatBool b = (if b then ''true'' else ''false'')"

definition digit :: "nat \<Rightarrow> char" where
  "digit d = ''0123456789ABCDEF'' ! d"

function FormatUint :: "nat \<Rightarrow> string" where
  "FormatUint n = (if n < 10 then [digit n] else FormatUint (n div 10) @ [digit (n mod 10)])"
  by pat_completeness auto
termination
  by (relation "measure (\<lambda>n. n)") auto

declare FormatUint.simps [simp del]

definition FormatInt :: "int \<Rightarrow> string" where
  "FormatInt i = (if i < 0 then ''-'' @ FormatUint (nat (- i)) else FormatUint (nat i))"

text \<open>
  A floating-point number is a sign, a mantissa and a binary exponent (the value
  \<open>\<plusminus> m * 2 ^ e\<close>), an infinity or a NaN. \<^verbatim>\<open>strconv.FormatFloat(x, 'f', 6, bits)\<close> prints
  six digits after the point, rounding the exact value to the nearest, ties to even; the
  bit size does not change what is printed at a fixed precision.
\<close>

datatype float = Finite bool nat int | Inf bool | NaN

definition roundHalfEven :: "nat \<Rightarrow> nat \<Rightarrow> nat" where
  "roundHalfEven n d =
     (let q = n div d; r = n mod d
      in if d < 2 * r \<or> (2 * r = d \<and> odd q) then q + 1 else q)"

definition micros :: "nat \<Rightarrow> int \<Rightarrow> nat" where
  "micros m e =
     (if 0 \<le> e then m * 2 ^ nat e * 1000000
      else roundHalfEven (m * 1000000) (2 ^ nat (- e)))"

fun FormatFloat :: "float \<Rightarrow> nat \<Rightarrow> string" where
  "FormatFloat NaN bits = ''NaN''"
| "FormatFloat (Inf neg) bits = (if neg then ''-Inf'' else ''+Inf'')"
| "FormatFloat (Finite neg m e) bits =
     (let q = micros m e; frac = FormatUint (q mod 1000000)
      in (if neg then ''-'' else []) @ FormatUint (q div 1000000) @ ''.'' @
         replicate (6 - length frac) (CHR ''0'') @ frac)"

text \<open>
  \<^verbatim>\<open>url.QueryEscape\<close>: letters, digits and \<^verbatim>\<open>- _ . ~\<close> are kept, a space becomes \<^verbatim>\<open>+\<close>,
  every other byte becomes \<^verbatim>\<open>%XX\<close> in upper-case hexadecimal.
\<close>

definition shouldEscape :: "char \<Rightarrow> bool" where
  "shouldEscape c \<longleftrightarrow>
     \<not> ((CHR ''a'' \<le> c \<and> c \<le> CHR ''z'') \<or> (CHR ''A'' \<le> c \<and> c \<le> CHR ''Z'') \<or>
        (CHR ''0'' \<le> c \<and> c \<le> CHR ''9'') \<or> c \<in> set ''-_.~'')"

fun QueryEscape :: "string \<Rightarrow> string" where
  "QueryEscape [] = []"
| "QueryEscape (c # cs) =
     (if c = CHR '' '' then CHR ''+'' # QueryEscape cs
      else if shouldEscape c
        then CHR ''%'' # digit (of_char c div 16) # digit (of_char c mod 16) # QueryEscape cs
      else c # QueryEscape cs)"

subsection \<open>Reflection: kinds, types and values\<close>

datatype kind =
    KInvalid | KBool
  | KInt | KInt8 | KInt16 | KInt32 | KInt64
  | KUint | KUint8 | KUint16 | KUint32 | KUint64 | KUintptr
  | KFloat32 | KFloat64 | KComplex64 | KComplex128
  | KArray | KChan | KFunc | KInterface | KMap | KPtr | KSlice | KString | KStruct
  | KUnsafePointer

text \<open>
  A type is a predeclared type, a composite type, or a defined type (\<^verbatim>\<open>type Money int\<close>)
  with its name and its underlying type. Struct, function and interface types are
  identified by the string \<^verbatim>\<open>String()\<close> prints for them; the fields of a struct are read
  from its values. Two types are identical when the terms are equal, which is what the
  registry's map compares.
\<close>

datatype rtype =
    TBool | TInt | TInt8 | TInt16 | TInt32 | TInt64
  | TUint | TUint8 | TUint16 | TUint32 | TUint64 | TUintptr
  | TFloat32 | TFloat64 | TComplex64 | TComplex128 | TString | TUnsafePointer
  | TPtr rtype | TSlice rtype | TArray nat rtype | TMap rtype rtype | TChan rtype
  | TStruct string | TFunc string | TInterface string
  | TDefined string rtype

fun Kind :: "rtype \<Rightarrow> kind" where
  "Kind TBool = KBool"
| "Kind TInt = KInt" | "Kind TInt8 = KInt8" | "Kind TInt16 = KInt16"
| "Kind TInt32 = KInt32" | "Kind TInt64 = KInt64"
| "Kind TUint = KUint" | "Kind TUint8 = KUint8" | "Kind TUint16 = KUint16"
| "Kind TUint32 = KUint32" | "Kind TUint64 = KUint64" | "Kind TUintptr = KUintptr"
| "Kind TFloat32 = KFloat32" | "Kind TFloat64 = KFloat64"
| "Kind TComplex64 = KComplex64" | "Kind TComplex128 = KComplex128"
| "Kind TString = KString" | "Kind TUnsafePointer = KUnsafePointer"
| "Kind (TPtr t) = KPtr" | "Kind (TSlice t) = KSlice" | "Kind (TArray n t) = KArray"
| "Kind (TMap k t) = KMap" | "Kind (TChan t) = KChan"
| "Kind (TStruct s) = KStruct" | "Kind (TFunc s) = KFunc" | "Kind (TInterface s) = KInterface"
| "Kind (TDefined s u) = Kind u"

text \<open>
  \<^verbatim>\<open>t.Elem()\<close>, the element type of a pointer, slice, array, map or channel type; Go
  panics on the other kinds, which is \<open>None\<close> here.
\<close>

fun Elem :: "rtype \<Rightarrow> rtype option" where
  "Elem (TPtr t) = Some t"
| "Elem (TSlice t) = Some t"
| "Elem (TArray n t) = Some t"
| "Elem (TMap k t) = Some t"
| "Elem (TChan t) = Some t"
| "Elem (TDefined s u) = Elem u"
| "Elem _ = None"

fun TypeString :: "rtype \<Rightarrow> string" where
  "TypeString TBool = ''bool''"
| "TypeString TInt = ''int''" | "TypeString TInt8 = ''int8''" | "TypeString TInt16 = ''int16''"
| "TypeString TInt32 = ''int32''" | "TypeString TInt64 = ''int64''"
| "TypeString TUint = ''uint''" | "TypeString TUint8 = ''uint8''"
| "TypeString TUint16 = ''uint16''" | "TypeString TUint32 = ''uint32''"
| "TypeString TUint64 = ''uint64''" | "TypeString TUintptr = ''uintptr''"
| "TypeString TFloat32 = ''float32''" | "TypeString TFloat64 = ''float64''"
| "TypeString TComplex64 = ''complex64''" | "TypeString TComplex128 = ''complex128''"
| "TypeString TString = ''string''" | "TypeString TUnsafePointer = ''unsafe.Pointer''"
| "TypeString (TPtr t) = ''*'' @ TypeString t"
| "TypeString (TSlice t) = ''[]'' @ TypeString t"
| "TypeString (TArray n t) = ''['' @ FormatUint n @ '']'' @ TypeString t"
| "TypeString (TMap k t) = ''map['' @ TypeString k @ '']'' @ TypeString t"
| "TypeString (TChan t) = ''chan '' @ TypeString t"
| "TypeString (TStruct s) = s"
| "TypeString (TFunc s) = s"
| "TypeString (TInterface s) = s"
| "TypeString (TDefined s u) = s"

text \<open>
  A value carries its type and a payload: the number \<^verbatim>\<open>v.Int()\<close> or \<^verbatim>\<open>v.Uint()\<close> gives,
  the pointee of a pointer (\<open>None\<close> is nil), the elements of a slice or the entries of a map
  (\<open>None\<close> is nil), the fields of a struct. A struct value also carries what its method
  \<^verbatim>\<open>IsZero() bool\<close> returns when its type has one. \<open>VFunc\<close> records whether the function
  is nil; \<open>VOther\<close> stands for the kinds the encoder has no case for (complex numbers,
  channels, interfaces, unsafe pointers) and records whether the value equals the zero
  value of its type.

  A field carries what \<^verbatim>\<open>fieldAlias\<close> returns for it under the encoder's tag, the alias
  \<open>name\<close> and the options \<open>opts\<close>: \<^verbatim>\<open>fieldAlias\<close>, the tag options and the cache that holds
  the tag belong to other files of the package. It also carries whether the field is
  exported and whether it is embedded (\<^verbatim>\<open>Anonymous\<close> in \<^verbatim>\<open>reflect.StructField\<close>), which
  decide what reflection lets the program do with the value of the field. Values are
  finite trees, so a pointer never leads back to its own struct.
\<close>

datatype rvalue =
    VBool rtype bool
  | VInt rtype int
  | VUint rtype nat
  | VFloat rtype float
  | VString rtype string
  | VPtr rtype "rvalue option"
  | VSlice rtype "rvalue list option"
  | VArray rtype "rvalue list"
  | VMap rtype "(rvalue \<times> rvalue) list option"
  | VStruct rtype "bool option" "field list"
  | VFunc rtype bool
  | VOther rtype bool
and field =
  Field (name: string) (opts: "string list") (exported: bool) (anonymous: bool) (val: rvalue)

fun Type :: "rvalue \<Rightarrow> rtype" where
  "Type (VBool t b) = t"
| "Type (VInt t i) = t"
| "Type (VUint t n) = t"
| "Type (VFloat t x) = t"
| "Type (VString t s) = t"
| "Type (VPtr t p) = t"
| "Type (VSlice t xs) = t"
| "Type (VArray t xs) = t"
| "Type (VMap t m) = t"
| "Type (VStruct t z fs) = t"
| "Type (VFunc t n) = t"
| "Type (VOther t z) = t"

text \<open>\<^verbatim>\<open>v.Kind()\<close> of a Value that may be the zero Value.\<close>

fun vKind :: "rvalue option \<Rightarrow> kind" where
  "vKind None = KInvalid"
| "vKind (Some v) = Kind (Type v)"

text \<open>
  \<^verbatim>\<open>v.Elem()\<close> of a pointer: the pointee, the zero Value for a nil pointer. The encoder
  calls it on pointers only.
\<close>

fun vElem :: "rvalue option \<Rightarrow> rvalue option" where
  "vElem (Some (VPtr t p)) = p"
| "vElem _ = None"

text \<open>
  \<^verbatim>\<open>v.Len()\<close> and \<^verbatim>\<open>v.Index(j)\<close> of a slice, as the list of its elements (empty for a nil
  slice). The encoder reads them from slices only.
\<close>

fun elems :: "rvalue \<Rightarrow> rvalue list" where
  "elems (VSlice t (Some xs)) = xs"
| "elems _ = []"

text \<open>
  A \<^verbatim>\<open>reflect.Value\<close> has flags besides its type and data. Two of them mark a value
  that was read through an unexported field, \<^verbatim>\<open>flagStickyRO\<close> and \<^verbatim>\<open>flagEmbedRO\<close>; on a
  value with one of them \<^verbatim>\<open>v.Interface()\<close> and \<^verbatim>\<open>v.Call\<close> panic, while the readers
  \<^verbatim>\<open>v.Bool()\<close>, \<^verbatim>\<open>v.Int()\<close>, \<^verbatim>\<open>v.String()\<close>, \<^verbatim>\<open>v.IsNil()\<close>, \<^verbatim>\<open>v.Len()\<close> do not look
  at them. \<^verbatim>\<open>reflect.ValueOf\<close> returns a value with neither. \<^verbatim>\<open>v.Field(i)\<close> keeps the
  sticky flag of \<open>v\<close>, drops the other one, and for an unexported field adds
  \<^verbatim>\<open>flagEmbedRO\<close> when the field is embedded, \<^verbatim>\<open>flagStickyRO\<close> when it is not.
  \<^verbatim>\<open>v.Elem()\<close> of a pointer keeps the flags, and \<^verbatim>\<open>v.Index(i)\<close> gives the sticky flag to
  the elements of a value that has either. A value with both flags behaves as one with
  the sticky flag, so three cases are told apart.
\<close>

datatype flag = NoRO | EmbedRO | StickyRO

definition flagRO :: "flag \<Rightarrow> bool" where
  "flagRO fl \<longleftrightarrow> fl \<noteq> NoRO"

definition fieldFlag :: "flag \<Rightarrow> field \<Rightarrow> flag" where
  "fieldFlag fl f =
     (if fl = StickyRO then StickyRO
      else if exported f then NoRO
      else if anonymous f then EmbedRO
      else StickyRO)"

definition indexFlag :: "flag \<Rightarrow> flag" where
  "indexFlag fl = (if flagRO fl then StickyRO else NoRO)"

text \<open>\<^verbatim>\<open>opts.Contains(option)\<close> of the tag options.\<close>

definition Contains :: "string list \<Rightarrow> string \<Rightarrow> bool" where
  "Contains os option \<longleftrightarrow> option \<in> set os"

subsection \<open>Encoder functions\<close>

text \<open>
  \<^verbatim>\<open>type encoderFunc func(reflect.Value) string\<close>. The function is given the flag of the
  value with the value. A function value of Go may be nil, which is \<open>None\<close>; calling a
  function may panic, and so does calling nil.
\<close>

type_synonym encoderFunc = "(flag \<Rightarrow> rvalue \<Rightarrow> string option) option"

definition call :: "encoderFunc \<Rightarrow> flag \<Rightarrow> rvalue \<Rightarrow> string option" where
  "call f fl v = (case f of None \<Rightarrow> None | Some g \<Rightarrow> g fl v)"

text \<open>
  The built-in encoders. \<^verbatim>\<open>v.Bool()\<close>, \<^verbatim>\<open>v.Int()\<close>, \<^verbatim>\<open>v.Uint()\<close> and \<^verbatim>\<open>v.Float()\<close> panic on
  a value of another kind; \<^verbatim>\<open>v.String()\<close> does not, it prints the type instead.
\<close>

fun encodeBool :: "flag \<Rightarrow> rvalue \<Rightarrow> string option" where
  "encodeBool fl (VBool t b) = Some (FormatBool b)"
| "encodeBool fl _ = None"

fun encodeInt :: "flag \<Rightarrow> rvalue \<Rightarrow> string option" where
  "encodeInt fl (VInt t i) = Some (FormatInt i)"
| "encodeInt fl _ = None"

fun encodeUint :: "flag \<Rightarrow> rvalue \<Rightarrow> string option" where
  "encodeUint fl (VUint t n) = Some (FormatUint n)"
| "encodeUint fl _ = None"

fun encodeFloat :: "flag \<Rightarrow> rvalue \<Rightarrow> nat \<Rightarrow> string option" where
  "encodeFloat fl (VFloat t x) bits = Some (FormatFloat x bits)"
| "encodeFloat fl _ bits = None"

definition encodeFloat32 :: "flag \<Rightarrow> rvalue \<Rightarrow> string option" where
  "encodeFloat32 fl v = encodeFloat fl v 32"

definition encodeFloat64 :: "flag \<Rightarrow> rvalue \<Rightarrow> string option" where
  "encodeFloat64 fl v = encodeFloat fl v 64"

fun encodeString :: "flag \<Rightarrow> rvalue \<Rightarrow> string option" where
  "encodeString fl (VString t s) = Some s"
| "encodeString fl v = Some (''<'' @ TypeString (Type v) @ '' Value>'')"

text \<open>
  The encoder a pointer type gets (the closure in \<^verbatim>\<open>typeEncoder\<close>): \<^verbatim>\<open>null\<close> for a nil
  pointer, else the pointee's encoder \<open>f\<close> on the pointee, which has the flag of the
  pointer. \<open>f\<close> is whatever \<^verbatim>\<open>typeEncoder\<close> returned for the element type, nil included.
\<close>

fun encodePtr :: "encoderFunc \<Rightarrow> flag \<Rightarrow> rvalue \<Rightarrow> string option" where
  "encodePtr f fl (VPtr t None) = Some ''null''"
| "encodePtr f fl (VPtr t (Some x)) = call f fl x"
| "encodePtr f fl _ = None"

function typeEncoder :: "rtype \<Rightarrow> (rtype, encoderFunc) mapping \<Rightarrow> encoderFunc" where
  "typeEncoder t reg =
     (case Mapping.lookup reg t of
        Some f \<Rightarrow> f
      | None \<Rightarrow>
         (case Kind t of
            KBool \<Rightarrow> Some encodeBool
          | KInt \<Rightarrow> Some encodeInt
          | KInt8 \<Rightarrow> Some encodeInt
          | KInt16 \<Rightarrow> Some encodeInt
          | KInt32 \<Rightarrow> Some encodeInt
          | KInt64 \<Rightarrow> Some encodeInt
          | KUint \<Rightarrow> Some encodeUint
          | KUint8 \<Rightarrow> Some encodeUint
          | KUint16 \<Rightarrow> Some encodeUint
          | KUint32 \<Rightarrow> Some encodeUint
          | KUint64 \<Rightarrow> Some encodeUint
          | KFloat32 \<Rightarrow> Some encodeFloat32
          | KFloat64 \<Rightarrow> Some encodeFloat64
          | KPtr \<Rightarrow>
              (case Elem t of
                 Some t' \<Rightarrow> Some (encodePtr (typeEncoder t' reg))
               | None \<Rightarrow> None)
          | KString \<Rightarrow> Some encodeString
          | _ \<Rightarrow> None))"
  by pat_completeness auto
termination
proof -
  have smaller: "size t' < size t" if "Elem t = Some t'" for t t'
    using that by (induction t rule: Elem.induct) auto
  show ?thesis
    by (relation "measure (\<lambda>(t, reg). size t)") (auto dest: smaller)
qed

declare typeEncoder.simps [simp del]

subsection \<open>The zero test\<close>

text \<open>
  \<^verbatim>\<open>isZero\<close> switches on the kind of the value. The case for functions is empty, so a
  function falls out of the switch to the comparison of \<^verbatim>\<open>v.Interface()\<close> with the zero
  value, which panics for a function type (functions are not comparable). The loops over
  array elements and struct fields compute \<^verbatim>\<open>z = z && isZero(...)\<close>, so they stop calling
  \<^verbatim>\<open>isZero\<close> once \<open>z\<close> is false.

  The first argument is the flag of the value. A map or a slice is tested with
  \<^verbatim>\<open>v.IsNil()\<close> and \<^verbatim>\<open>v.Len()\<close>, whatever the flag. The call of the method \<^verbatim>\<open>IsZero\<close> of
  a struct and the comparison of \<^verbatim>\<open>v.Interface()\<close> panic on a value that was read through
  an unexported field. The loops read \<^verbatim>\<open>v.Index(i)\<close> and \<^verbatim>\<open>v.Field(i)\<close>, every field,
  exported or not.
\<close>

fun isZero :: "flag \<Rightarrow> rvalue \<Rightarrow> bool option"
  and isZeroElems :: "flag \<Rightarrow> bool \<Rightarrow> rvalue list \<Rightarrow> bool option"
  and isZeroFields :: "flag \<Rightarrow> bool \<Rightarrow> field list \<Rightarrow> bool option" where
  "isZero fl (VFunc t n) = None"
| "isZero fl (VMap t m) = Some (case m of None \<Rightarrow> True | Some es \<Rightarrow> length es = 0)"
| "isZero fl (VSlice t s) = Some (case s of None \<Rightarrow> True | Some xs \<Rightarrow> length xs = 0)"
| "isZero fl (VArray t xs) = isZeroElems (indexFlag fl) True xs"
| "isZero fl (VStruct t iz fs) =
     (case iz of
        Some b \<Rightarrow> if flagRO fl then None else Some b
      | None \<Rightarrow> isZeroFields fl True fs)"
| "isZero fl (VBool t b) = (if flagRO fl then None else Some (b = False))"
| "isZero fl (VInt t i) = (if flagRO fl then None else Some (i = 0))"
| "isZero fl (VUint t n) = (if flagRO fl then None else Some (n = 0))"
| "isZero fl (VFloat t x) =
     (if flagRO fl then None
      else Some (case x of Finite neg m e \<Rightarrow> m = 0 | _ \<Rightarrow> False))"
| "isZero fl (VString t s) = (if flagRO fl then None else Some (s = []))"
| "isZero fl (VPtr t p) = (if flagRO fl then None else Some (p = None))"
| "isZero fl (VOther t z) = (if flagRO fl then None else Some z)"
| "isZeroElems fl z [] = Some z"
| "isZeroElems fl z (x # xs) =
     (if z then (case isZero fl x of None \<Rightarrow> None | Some b \<Rightarrow> isZeroElems fl b xs)
      else isZeroElems fl False xs)"
| "isZeroFields fl z [] = Some z"
| "isZeroFields fl z (Field n os ex an x # fs) =
     (if z then (case isZero (fieldFlag fl (Field n os ex an x)) x of
                   None \<Rightarrow> None
                 | Some b \<Rightarrow> isZeroFields fl b fs)
      else isZeroFields fl False fs)"

subsection \<open>The ordered collector\<close>

record UrlValues =
  keys :: "string list"
  "values" :: "(string, string list) mapping"

definition Values :: "UrlValues \<Rightarrow> (string, string list) mapping" where
  "Values v = values v"

text \<open>
  \<^verbatim>\<open>Encode\<close> writes into a buffer, which the loops pass on: an \<^verbatim>\<open>&\<close> before every pair
  but the first one written.
\<close>

fun writeValues :: "string \<Rightarrow> string list \<Rightarrow> string \<Rightarrow> string" where
  "writeValues keyEscaped [] buf = buf"
| "writeValues keyEscaped (x # xs) buf =
     writeValues keyEscaped xs
       ((if length buf > 0 then buf @ ''&'' else buf) @ keyEscaped @ ''='' @ QueryEscape x)"

fun writeKeys :: "(string, string list) mapping \<Rightarrow> string list \<Rightarrow> string \<Rightarrow> string" where
  "writeKeys m [] buf = buf"
| "writeKeys m (k # ks) buf =
     writeKeys m ks (writeValues (QueryEscape k) (Mapping.lookup_default [] m k) buf)"

definition Encode :: "UrlValues \<Rightarrow> string" where
  "Encode v = (if Mapping.is_empty (values v) then [] else writeKeys (values v) (keys v) [])"

definition removeKey :: "UrlValues \<Rightarrow> string \<Rightarrow> UrlValues" where
  "removeKey v key = v\<lparr>keys := remove1 key (keys v)\<rparr>"

text \<open>
  The two writes of the loop body of \<^verbatim>\<open>encode\<close>. For a field with an encoder of its
  own: the key is appended to the key order when the map has no entry for it, and the
  value is appended to the values of the key. For a slice: a key that has an entry is
  removed from the key order, the key is appended, and the encoded elements become the
  values of the key.
\<close>

definition appendValue :: "UrlValues \<Rightarrow> string \<Rightarrow> string \<Rightarrow> UrlValues" where
  "appendValue vals key value =
     (let vals' = (if Mapping.lookup (values vals) key = None
                   then vals\<lparr>keys := keys vals @ [key]\<rparr> else vals)
      in vals'\<lparr>values :=
           Mapping.update key (Mapping.lookup_default [] (values vals') key @ [value])
             (values vals')\<rparr>)"

definition replaceValues :: "UrlValues \<Rightarrow> string \<Rightarrow> string list \<Rightarrow> UrlValues" where
  "replaceValues vals key strs =
     (let vals' = (if Mapping.lookup (values vals) key \<noteq> None
                   then removeKey vals key else vals);
          vals'' = vals'\<lparr>keys := keys vals' @ [key]\<rparr>
      in vals''\<lparr>values := Mapping.update key strs (values vals'')\<rparr>)"

subsection \<open>Errors and the encoder\<close>

text \<open>
  The three errors of \<^verbatim>\<open>encode\<close>: the input is no struct, no encoder was found for a
  field (the message prints the field's value), and the composite \<^verbatim>\<open>MultiError\<close>, a map
  from strings to errors. The entries of the composite are kept in a list that
  \<open>AList.update\<close> writes, so a key has one entry and a second write replaces the first.
\<close>

datatype error =
    ErrNotStruct
  | ErrNoEncoder rvalue
  | MultiError "(string \<times> error) list"

text \<open>
  Of the \<^verbatim>\<open>Encoder\<close> the registry is kept; its cache holds the tag that \<^verbatim>\<open>fieldAlias\<close>
  reads, whose results the fields carry.
\<close>

record Encoder =
  regenc :: "(rtype, encoderFunc) mapping"

definition NewEncoder :: "Encoder" where
  "NewEncoder = \<lparr>regenc = Mapping.empty\<rparr>"

definition RegisterEncoder :: "Encoder \<Rightarrow> rvalue \<Rightarrow> encoderFunc \<Rightarrow> Encoder" where
  "RegisterEncoder e value encoder = e\<lparr>regenc := Mapping.update (Type value) encoder (regenc e)\<rparr>"

definition hasCustomEncoder :: "Encoder \<Rightarrow> rtype \<Rightarrow> bool" where
  "hasCustomEncoder e t \<longleftrightarrow> Mapping.lookup (regenc e) t \<noteq> None"

definition isValidStructPointer :: "rvalue \<Rightarrow> bool" where
  "isValidStructPointer v \<longleftrightarrow>
     Kind (Type v) = KPtr \<and> vElem (Some v) \<noteq> None \<and> vKind (vElem (Some v)) = KStruct"

text \<open>
  \<^verbatim>\<open>v.NumField()\<close> and \<^verbatim>\<open>v.Field(i)\<close> of a struct, as the list of its fields, and
  \<^verbatim>\<open>v.Type().String()\<close> of a valid Value. \<^verbatim>\<open>encode\<close> reads them after its test for a struct
  and from the pointee of a valid struct pointer.
\<close>

fun vFields :: "rvalue option \<Rightarrow> field list" where
  "vFields (Some (VStruct t z fs)) = fs"
| "vFields _ = []"

fun vTypeString :: "rvalue option \<Rightarrow> string" where
  "vTypeString (Some v) = TypeString (Type v)"
| "vTypeString None = []"

text \<open>
  The loop over the elements of a slice; it panics when a call of the encoder does. The
  flag is the one of the elements \<^verbatim>\<open>v.Field(i).Index(j)\<close>.
\<close>

fun encodeElems ::
  "(flag \<Rightarrow> rvalue \<Rightarrow> string option) \<Rightarrow> flag \<Rightarrow> rvalue list \<Rightarrow> string list
     \<Rightarrow> string list option" where
  "encodeElems encFunc fl [] strs = Some strs"
| "encodeElems encFunc fl (x # xs) strs =
     (case encFunc fl x of
        None \<Rightarrow> None
      | Some s \<Rightarrow> encodeElems encFunc fl xs (strs @ [s]))"

text \<open>What a recursive call of \<^verbatim>\<open>encode\<close> adds to the composite error.\<close>

definition recordError :: "string \<Rightarrow> error option \<Rightarrow> (string \<times> error) list \<Rightarrow> (string \<times> error) list" where
  "recordError key err errors = (case err of None \<Rightarrow> errors | Some x \<Rightarrow> AList.update key x errors)"

subsection \<open>The traversal\<close>

text \<open>
  \<^verbatim>\<open>encode\<close> returns the error and the collector it has written to, or \<open>None\<close> when
  it panics. \<open>encodeFields\<close> is the loop over the fields, which passes the composite
  error and the collector on, and \<open>encodeField\<close> is the body of the loop: what it returns
  is the state at the \<^verbatim>\<open>continue\<close> or at the end of the body. The flag \<open>fl\<close> is the one
  of the value \<open>v\<close> that \<^verbatim>\<open>encode\<close> is given, which is also the flag of the struct whose
  fields the loop reads; the value \<^verbatim>\<open>v.Field(i)\<close> of a field \<open>f\<close> has the flag
  \<open>fieldFlag fl f\<close>.
\<close>

function encode :: "Encoder \<Rightarrow> flag \<Rightarrow> rvalue option \<Rightarrow> UrlValues
        \<Rightarrow> (error option \<times> UrlValues) option"
  and encodeFields :: "Encoder \<Rightarrow> flag \<Rightarrow> field list \<Rightarrow> (string \<times> error) list \<Rightarrow> UrlValues
        \<Rightarrow> ((string \<times> error) list \<times> UrlValues) option"
  and encodeField :: "Encoder \<Rightarrow> flag \<Rightarrow> field \<Rightarrow> (string \<times> error) list \<Rightarrow> UrlValues
        \<Rightarrow> ((string \<times> error) list \<times> UrlValues) option" where
  "encode e fl v vals =
     (let v' = (if vKind v = KPtr then vElem v else v)
      in if vKind v' \<noteq> KStruct then Some (Some ErrNotStruct, vals)
         else (case encodeFields e fl (vFields v') [] vals of
                 None \<Rightarrow> None
               | Some (errors, vals') \<Rightarrow>
                   Some (if length errors > 0 then Some (MultiError errors) else None, vals')))"
| "encodeFields e fl [] errors vals = Some (errors, vals)"
| "encodeFields e fl (f # fs) errors vals =
     (case encodeField e fl f errors vals of
        None \<Rightarrow> None
      | Some (errors', vals') \<Rightarrow> encodeFields e fl fs errors' vals')"
| "encodeField e fl f errors vals =
     (if name f = ''-'' then Some (errors, vals)
      else if isValidStructPointer (val f) \<and> \<not> hasCustomEncoder e (Type (val f)) then
        (case encode e (fieldFlag fl f) (vElem (Some (val f))) vals of
           None \<Rightarrow> None
         | Some (err, vals') \<Rightarrow>
             Some (recordError (vTypeString (vElem (Some (val f)))) err errors, vals'))
      else
        (case typeEncoder (Type (val f)) (regenc e) of
           Some encFunc \<Rightarrow>
             (case encFunc (fieldFlag fl f) (val f) of
                None \<Rightarrow> None
              | Some value \<Rightarrow>
                  if Contains (opts f) ''omitempty'' then
                    (case isZero (fieldFlag fl f) (val f) of
                       None \<Rightarrow> None
                     | Some z \<Rightarrow>
                         if z then Some (errors, vals)
                         else Some (errors, appendValue vals (name f) value))
                  else Some (errors, appendValue vals (name f) value))
         | None \<Rightarrow>
             if Kind (Type (val f)) = KStruct then
               (case encode e (fieldFlag fl f) (Some (val f)) vals of
                  None \<Rightarrow> None
                | Some (err, vals') \<Rightarrow>
                    Some (recordError (TypeString (Type (val f))) err errors, vals'))
             else
               (case (if Kind (Type (val f)) = KSlice
                      then (case Elem (Type (val f)) of
                              Some t' \<Rightarrow> typeEncoder t' (regenc e)
                            | None \<Rightarrow> None)
                      else None) of
                  None \<Rightarrow>
                    Some (AList.update (TypeString (Type (val f))) (ErrNoEncoder (val f)) errors,
                          vals)
                | Some encFunc \<Rightarrow>
                    if length (elems (val f)) = 0 \<and> Contains (opts f) ''omitempty''
                    then Some (errors, vals)
                    else (case encodeElems encFunc (indexFlag (fieldFlag fl f)) (elems (val f)) [] of
                            None \<Rightarrow> None
                          | Some strs \<Rightarrow> Some (errors, replaceValues vals (name f) strs)))))"
  by pat_completeness auto
termination
proof -
  have fields: "size_list size (vFields v) < size_option size v" if "vKind v = KStruct" for v
    using that by (induction v rule: vFields.induct) auto
  have pointee: "size_option size (vElem v) \<le> size_option size v" for v
    by (induction v rule: vElem.induct) auto
  have valid: "size_option size (vElem (Some v)) \<le> size v" if "isValidStructPointer v" for v
    using that by (cases v) (auto simp: isValidStructPointer_def)
  have inside: "size (val f) < size f" for f
    by (cases f) auto
  show ?thesis
  proof (relation "measure (\<lambda>x. case x of
            Inl (e, fl, v, vals) \<Rightarrow> 3 * size_option size v
          | Inr (Inl (e, fl, fs, errors, vals)) \<Rightarrow> 3 * size_list size fs + 2
          | Inr (Inr (e, fl, f, errors, vals)) \<Rightarrow> 3 * size f + 1)", goal_cases)
    case (2 e fl v vals x)
    then show ?case
      using fields [of "vElem v"] fields [of v] pointee [of v] by (auto split: if_splits)
  next
    case (5 e fl f errors vals)
    then show ?case
      using valid [of "val f"] inside [of f] by simp
  next
    case (6 e fl f errors vals)
    then show ?case
      using inside [of f] by simp
  qed simp_all
qed

declare encode.simps [simp del] encodeField.simps [simp del]

text \<open>
  The two entry points. \<^verbatim>\<open>reflect.ValueOf(src)\<close> is the zero Value for a nil \<open>src\<close>,
  and a value with no read-only flag otherwise.
  \<^verbatim>\<open>Encode\<close> of the encoder writes into the map \<open>dst\<close> of the caller, who sees what
  has been written; the map is allocated. \<^verbatim>\<open>EncodeValues\<close> returns a collector or an
  error.
\<close>

definition Encoder_Encode ::
  "Encoder \<Rightarrow> rvalue option \<Rightarrow> (string, string list) mapping
     \<Rightarrow> (error option \<times> (string, string list) mapping) option" where
  "Encoder_Encode e src dst =
     (case encode e NoRO src \<lparr>keys = [], values = dst\<rparr> of
        None \<Rightarrow> None
      | Some (err, vals) \<Rightarrow> Some (err, values vals))"

definition EncodeValues ::
  "Encoder \<Rightarrow> rvalue option \<Rightarrow> (UrlValues option \<times> error option) option" where
  "EncodeValues e src =
     (case encode e NoRO src \<lparr>keys = [], values = Mapping.empty\<rparr> of
        None \<Rightarrow> None
      | Some (Some err, vals) \<Rightarrow> Some (None, Some err)
      | Some (None, vals) \<Rightarrow> Some (Some vals, None))"

subsection \<open>The list of pairs\<close>

text \<open>
  The second source file declares \<^verbatim>\<open>UrlValues\<close> as a slice of key/value pairs, with the
  same two methods; they are \<open>Values_list\<close> and \<open>Encode_list\<close> here.
\<close>

record UrlValue =
  Key :: string
  Value :: string

fun valuesLoop :: "(string, string list) mapping \<Rightarrow> UrlValue list \<Rightarrow> (string, string list) mapping" where
  "valuesLoop m [] = m"
| "valuesLoop m (p # ps) =
     valuesLoop (Mapping.update (Key p) (Mapping.lookup_default [] m (Key p) @ [Value p]) m) ps"

definition Values_list :: "UrlValue list \<Rightarrow> (string, string list) mapping" where
  "Values_list v = valuesLoop Mapping.empty v"

fun writePairs :: "UrlValue list \<Rightarrow> string \<Rightarrow> string" where
  "writePairs [] buf = buf"
| "writePairs (p # ps) buf =
     writePairs ps
       ((if length buf > 0 then buf @ ''&'' else buf) @ QueryEscape (Key p) @ ''='' @
        QueryEscape (Value p))"

definition Encode_list :: "UrlValue list \<Rightarrow> string" where
  "Encode_list v = (if length v = 0 then [] else writePairs v [])"

subsection \<open>Derived notions\<close>

text \<open>
  A field for which \<^verbatim>\<open>encode\<close> finds no encoder: the alias is not \<^verbatim>\<open>-\<close>, \<^verbatim>\<open>typeEncoder\<close>
  returns nil for the type of the field, the type is no struct, and when it is a slice
  \<^verbatim>\<open>typeEncoder\<close> returns nil for the element type as well.
\<close>

definition unencodable :: "Encoder \<Rightarrow> field \<Rightarrow> bool" where
  "unencodable e f \<longleftrightarrow>
     name f \<noteq> ''-'' \<and> typeEncoder (Type (val f)) (regenc e) = None \<and>
     Kind (Type (val f)) \<noteq> KStruct \<and>
     (case Elem (Type (val f)) of
        Some t' \<Rightarrow> Kind (Type (val f)) \<noteq> KSlice \<or> typeEncoder t' (regenc e) = None
      | None \<Rightarrow> True)"

text \<open>
  The strings that a field of a struct of flag \<open>fl\<close> contributes under its own alias:
  the string of the encoder of its type, or the strings of the elements of a slice. It is
  \<open>None\<close> for a field that is traversed as a struct, for a field without encoder, and
  when an encoder panics. \<open>fieldPairs\<close> pairs the strings with the alias.
\<close>

definition fieldStrings :: "Encoder \<Rightarrow> flag \<Rightarrow> field \<Rightarrow> string list option" where
  "fieldStrings e fl f =
     (if isValidStructPointer (val f) \<and> \<not> hasCustomEncoder e (Type (val f)) then None
      else (case typeEncoder (Type (val f)) (regenc e) of
              Some enc \<Rightarrow> (case enc (fieldFlag fl f) (val f) of None \<Rightarrow> None | Some s \<Rightarrow> Some [s])
            | None \<Rightarrow>
                if Kind (Type (val f)) = KSlice then
                  (case Elem (Type (val f)) of
                     Some t' \<Rightarrow>
                       (case typeEncoder t' (regenc e) of
                          Some enc \<Rightarrow> encodeElems enc (indexFlag (fieldFlag fl f)) (elems (val f)) []
                        | None \<Rightarrow> None)
                   | None \<Rightarrow> None)
                else None))"

definition fieldPairs :: "Encoder \<Rightarrow> flag \<Rightarrow> field \<Rightarrow> UrlValue list" where
  "fieldPairs e fl f =
     (case fieldStrings e fl f of
        None \<Rightarrow> []
      | Some strs \<Rightarrow> map (\<lambda>s. \<lparr>Key = name f, Value = s\<rparr>) strs)"

text \<open>
  The pairs an ordered collector renders: for every key of its key order, the values of
  the key.
\<close>

definition pairsOf :: "UrlValues \<Rightarrow> UrlValue list" where
  "pairsOf v =
     concat (map (\<lambda>k. map (\<lambda>x. \<lparr>Key = k, Value = x\<rparr>) (Mapping.lookup_default [] (values v) k))
       (keys v))"

text \<open>
  The ordered collector that stands for a list of pairs, after the words of the claim: the
  keys in the order of their first occurrence, and for every key its values in the order
  of the pairs. A list of keys is contiguous when no key comes back after its run has
  ended.
\<close>

fun firstOccurrences :: "'a list \<Rightarrow> 'a list" where
  "firstOccurrences [] = []"
| "firstOccurrences (x # xs) = x # filter (\<lambda>y. y \<noteq> x) (firstOccurrences xs)"

fun contiguous :: "'a list \<Rightarrow> bool" where
  "contiguous [] = True"
| "contiguous (k # ks) = (k \<notin> set (dropWhile (\<lambda>x. x = k) ks) \<and> contiguous ks)"

definition orderedOfPairs :: "UrlValue list \<Rightarrow> UrlValues" where
  "orderedOfPairs ps =
     \<lparr>keys = firstOccurrences (map Key ps),
      values = Mapping.tabulate (map Key ps) (\<lambda>k. map Value (filter (\<lambda>p. Key p = k) ps))\<rparr>"

text \<open>
  \<open>fails e f k\<close>: the field \<open>f\<close> fails to encode, and \<^verbatim>\<open>encode\<close> records its error under
  the key \<open>k\<close>. Either no encoder is found for the field, and the key is the name of its
  type; or the field is a struct without encoder, or a valid struct pointer without
  registered encoder, that is traversed and has a field that fails, and the key is the
  name of the struct type.
\<close>

inductive fails :: "Encoder \<Rightarrow> field \<Rightarrow> string \<Rightarrow> bool" for e :: Encoder where
  leaf: "unencodable e f \<Longrightarrow> fails e f (TypeString (Type (val f)))"
| inner: "name f \<noteq> ''-'' \<Longrightarrow> typeEncoder (Type (val f)) (regenc e) = None \<Longrightarrow>
      Kind (Type (val f)) = KStruct \<Longrightarrow> g \<in> set (vFields (Some (val f))) \<Longrightarrow> fails e g k \<Longrightarrow>
      fails e f (TypeString (Type (val f)))"
| pointee: "name f \<noteq> ''-'' \<Longrightarrow> isValidStructPointer (val f) \<Longrightarrow>
      \<not> hasCustomEncoder e (Type (val f)) \<Longrightarrow> g \<in> set (vFields (vElem (Some (val f)))) \<Longrightarrow>
      fails e g k \<Longrightarrow> fails e f (vTypeString (vElem (Some (val f))))"

text \<open>
  A field that \<^verbatim>\<open>encode\<close> traverses: its alias is not \<^verbatim>\<open>-\<close>, and it is a valid struct
  pointer with no encoder registered for the pointer type, or a struct whose type has no
  encoder. \<open>prune\<close> removes from a struct, or from the struct a pointer leads to, the
  fields for which no encoder is found, at every depth that \<^verbatim>\<open>encode\<close> reaches; the
  other fields stay as they are and where they are.
\<close>

definition traversed :: "Encoder \<Rightarrow> field \<Rightarrow> bool" where
  "traversed e f \<longleftrightarrow>
     name f \<noteq> ''-'' \<and>
     (isValidStructPointer (val f) \<and> \<not> hasCustomEncoder e (Type (val f)) \<or>
      typeEncoder (Type (val f)) (regenc e) = None \<and> Kind (Type (val f)) = KStruct)"

fun prune :: "Encoder \<Rightarrow> rvalue \<Rightarrow> rvalue"
  and pruneFields :: "Encoder \<Rightarrow> field list \<Rightarrow> field list" where
  "prune e (VStruct t z fs) = VStruct t z (pruneFields e fs)"
| "prune e (VPtr t (Some x)) = VPtr t (Some (prune e x))"
| "prune e v = v"
| "pruneFields e [] = []"
| "pruneFields e (Field n os ex an x # fs) =
     (if unencodable e (Field n os ex an x) then pruneFields e fs
      else if traversed e (Field n os ex an x)
        then Field n os ex an (prune e x) # pruneFields e fs
      else Field n os ex an x # pruneFields e fs)"

definition pruneField :: "Encoder \<Rightarrow> field \<Rightarrow> field" where
  "pruneField e f =
     (if traversed e f
      then Field (name f) (opts f) (exported f) (anonymous f) (prune e (val f)) else f)"

text \<open>
  The zero or empty value of a type, after the words of the claim: false, the number 0,
  the empty string, the nil pointer and the nil function, a map or a slice that is nil or
  has no element, an array whose elements are all zero, and for a struct what its own
  \<^verbatim>\<open>IsZero\<close> says when its type has the method, and fields that are all zero when it has
  not.
\<close>

fun zeroValue :: "rvalue \<Rightarrow> bool"
  and zeroElems :: "rvalue list \<Rightarrow> bool"
  and zeroFields :: "field list \<Rightarrow> bool" where
  "zeroValue (VBool t b) = (b = False)"
| "zeroValue (VInt t i) = (i = 0)"
| "zeroValue (VUint t n) = (n = 0)"
| "zeroValue (VFloat t x) = (case x of Finite neg m e \<Rightarrow> m = 0 | _ \<Rightarrow> False)"
| "zeroValue (VString t s) = (s = [])"
| "zeroValue (VPtr t p) = (p = None)"
| "zeroValue (VSlice t s) = (case s of None \<Rightarrow> True | Some xs \<Rightarrow> xs = [])"
| "zeroValue (VMap t m) = (case m of None \<Rightarrow> True | Some es \<Rightarrow> es = [])"
| "zeroValue (VArray t xs) = zeroElems xs"
| "zeroValue (VStruct t iz fs) = (case iz of Some b \<Rightarrow> b | None \<Rightarrow> zeroFields fs)"
| "zeroValue (VFunc t n) = n"
| "zeroValue (VOther t z) = z"
| "zeroElems [] = True"
| "zeroElems (x # xs) = (zeroValue x \<and> zeroElems xs)"
| "zeroFields [] = True"
| "zeroFields (Field n os ex an x # fs) = (zeroValue x \<and> zeroFields fs)"

text \<open>
  The collectors that \<^verbatim>\<open>encode\<close> keeps: no key twice in the key order, and every key of
  the key order with an entry in the map.
\<close>

definition ordered :: "UrlValues \<Rightarrow> bool" where
  "ordered c \<longleftrightarrow> distinct (keys c) \<and> (\<forall>k \<in> set (keys c). Mapping.lookup (values c) k \<noteq> None)"

subsection \<open>Sample inputs\<close>

text \<open>
  A registered encoder that returns the same string for every value, and the defined type
  \<^verbatim>\<open>type Money int64\<close>.
\<close>

definition constEncoder :: "string \<Rightarrow> encoderFunc" where
  "constEncoder s = Some (\<lambda>fl v. Some s)"

definition Money :: rtype where
  "Money = TDefined ''main.Money'' TInt64"

section \<open>Encoder resolution\<close>

lemma call_constEncoder [simp]: "call (constEncoder s) fl v = Some s"
  by (simp add: call_def constEncoder_def)

lemma Kind_Ptr_Elem: "Kind t = KPtr \<Longrightarrow> \<exists>t'. Elem t = Some t'"
  by (induction t) auto

lemma Kind_Slice_Elem: "Kind t = KSlice \<Longrightarrow> \<exists>t'. Elem t = Some t'"
  by (induction t) auto

lemma typeEncoder_registered:
  "Mapping.lookup reg t = Some f \<Longrightarrow> typeEncoder t reg = f"
  by (simp add: typeEncoder.simps)

lemma typeEncoder_builtin:
  "Mapping.lookup reg t = None \<Longrightarrow>
   typeEncoder t reg =
     (case Kind t of
        KBool \<Rightarrow> Some encodeBool
      | KInt \<Rightarrow> Some encodeInt | KInt8 \<Rightarrow> Some encodeInt | KInt16 \<Rightarrow> Some encodeInt
      | KInt32 \<Rightarrow> Some encodeInt | KInt64 \<Rightarrow> Some encodeInt
      | KUint \<Rightarrow> Some encodeUint | KUint8 \<Rightarrow> Some encodeUint | KUint16 \<Rightarrow> Some encodeUint
      | KUint32 \<Rightarrow> Some encodeUint | KUint64 \<Rightarrow> Some encodeUint
      | KFloat32 \<Rightarrow> Some encodeFloat32 | KFloat64 \<Rightarrow> Some encodeFloat64
      | KPtr \<Rightarrow> (case Elem t of Some t' \<Rightarrow> Some (encodePtr (typeEncoder t' reg)) | None \<Rightarrow> None)
      | KString \<Rightarrow> Some encodeString
      | _ \<Rightarrow> None)"
  by (subst typeEncoder.simps) simp

lemma typeEncoder_Ptr:
  "Mapping.lookup reg t = None \<Longrightarrow> Kind t = KPtr \<Longrightarrow> Elem t = Some t' \<Longrightarrow>
   typeEncoder t reg = Some (encodePtr (typeEncoder t' reg))"
  by (simp add: typeEncoder_builtin)

text \<open>
  C7. For a type with an entry in the registry, \<^verbatim>\<open>typeEncoder\<close> returns the registered
  function, whatever the kind of the type. \<^verbatim>\<open>RegisterEncoder\<close> writes the entry of the
  type of its value and leaves the entries of the other types as they are: the encoder
  registered for a type is resolved right after the registration, a second registration
  for the same type replaces the first, and a registration for another type changes
  nothing for the type. A new encoder has no registration; for a type with no
  registration the result is the built-in encoder of the kind of the type (none for the
  kinds without one).
\<close>

theorem registered_encoder_wins:
  "(Mapping.lookup (regenc e) t = Some h \<longrightarrow> typeEncoder t (regenc e) = h) \<and>
   Mapping.lookup (regenc (RegisterEncoder e value f)) t =
     (if t = Type value then Some f else Mapping.lookup (regenc e) t) \<and>
   typeEncoder (Type value) (regenc (RegisterEncoder e value f)) = f \<and>
   (Type value' = Type value \<longrightarrow>
      typeEncoder (Type value) (regenc (RegisterEncoder (RegisterEncoder e value f) value' g)) = g) \<and>
   (Type value' \<noteq> Type value \<longrightarrow>
      typeEncoder (Type value) (regenc (RegisterEncoder (RegisterEncoder e value f) value' g)) = f) \<and>
   (hasCustomEncoder e t \<and> Type value \<noteq> t \<longrightarrow>
      typeEncoder t (regenc (RegisterEncoder e value f)) = typeEncoder t (regenc e)) \<and>
   \<not> hasCustomEncoder NewEncoder t \<and>
   (\<not> hasCustomEncoder e t \<longrightarrow>
      (Kind t = KBool \<longrightarrow> typeEncoder t (regenc e) = Some encodeBool) \<and>
      (Kind t \<in> {KInt, KInt8, KInt16, KInt32, KInt64} \<longrightarrow>
         typeEncoder t (regenc e) = Some encodeInt) \<and>
      (Kind t \<in> {KUint, KUint8, KUint16, KUint32, KUint64} \<longrightarrow>
         typeEncoder t (regenc e) = Some encodeUint) \<and>
      (Kind t = KFloat32 \<longrightarrow> typeEncoder t (regenc e) = Some encodeFloat32) \<and>
      (Kind t = KFloat64 \<longrightarrow> typeEncoder t (regenc e) = Some encodeFloat64) \<and>
      (Kind t = KString \<longrightarrow> typeEncoder t (regenc e) = Some encodeString) \<and>
      (Kind t = KPtr \<longrightarrow>
         (\<exists>t'. Elem t = Some t' \<and>
               typeEncoder t (regenc e) = Some (encodePtr (typeEncoder t' (regenc e))))) \<and>
      (Kind t \<in> {KInvalid, KUintptr, KComplex64, KComplex128, KArray, KChan, KFunc,
                 KInterface, KMap, KSlice, KStruct, KUnsafePointer} \<longrightarrow>
         typeEncoder t (regenc e) = None))"
proof -
  have reg: "Mapping.lookup (regenc (RegisterEncoder e0 v0 f0)) t0 =
      (if t0 = Type v0 then Some f0 else Mapping.lookup (regenc e0) t0)" for e0 v0 f0 t0
    by (simp add: RegisterEncoder_def Mapping.lookup_update')
  have ptr: "\<exists>t'. Elem t = Some t' \<and>
      typeEncoder t (regenc e) = Some (encodePtr (typeEncoder t' (regenc e)))"
    if "\<not> hasCustomEncoder e t" "Kind t = KPtr"
  proof -
    from that have l: "Mapping.lookup (regenc e) t = None"
      by (simp add: hasCustomEncoder_def)
    from that obtain t' where "Elem t = Some t'"
      using Kind_Ptr_Elem by blast
    with l that show ?thesis
      by (simp add: typeEncoder_Ptr)
  qed
  have frame: "typeEncoder t (regenc (RegisterEncoder e value f)) = typeEncoder t (regenc e)"
    if "hasCustomEncoder e t \<and> Type value \<noteq> t"
  proof -
    from that obtain h' where h': "Mapping.lookup (regenc e) t = Some h'"
      by (auto simp: hasCustomEncoder_def)
    from that have "t \<noteq> Type value" by auto
    with h' have "Mapping.lookup (regenc (RegisterEncoder e value f)) t = Some h'"
      by (simp add: reg)
    with h' show ?thesis
      by (simp add: typeEncoder_registered)
  qed
  have builtin: "\<not> hasCustomEncoder e t \<longrightarrow>
      (Kind t = KBool \<longrightarrow> typeEncoder t (regenc e) = Some encodeBool) \<and>
      (Kind t \<in> {KInt, KInt8, KInt16, KInt32, KInt64} \<longrightarrow>
         typeEncoder t (regenc e) = Some encodeInt) \<and>
      (Kind t \<in> {KUint, KUint8, KUint16, KUint32, KUint64} \<longrightarrow>
         typeEncoder t (regenc e) = Some encodeUint) \<and>
      (Kind t = KFloat32 \<longrightarrow> typeEncoder t (regenc e) = Some encodeFloat32) \<and>
      (Kind t = KFloat64 \<longrightarrow> typeEncoder t (regenc e) = Some encodeFloat64) \<and>
      (Kind t = KString \<longrightarrow> typeEncoder t (regenc e) = Some encodeString) \<and>
      (Kind t \<in> {KInvalid, KUintptr, KComplex64, KComplex128, KArray, KChan, KFunc,
                 KInterface, KMap, KSlice, KStruct, KUnsafePointer} \<longrightarrow>
         typeEncoder t (regenc e) = None)"
    by (auto simp: hasCustomEncoder_def typeEncoder_builtin)
  have new: "\<not> hasCustomEncoder NewEncoder t"
    by (simp add: hasCustomEncoder_def NewEncoder_def)
  have one: "typeEncoder (Type value) (regenc (RegisterEncoder e value f)) = f"
    by (simp add: reg typeEncoder_registered)
  have two: "typeEncoder (Type value)
      (regenc (RegisterEncoder (RegisterEncoder e value f) value' g)) =
        (if Type value' = Type value then g else f)"
    by (simp add: reg typeEncoder_registered)
  show ?thesis
    using reg [of e "value" f t] ptr frame builtin new one two
    by (simp add: typeEncoder_registered)
qed

theorem registered_encoder_wins_witness:
  "typeEncoder Money (regenc (RegisterEncoder NewEncoder (VInt Money 5) (constEncoder ''five''))) =
     constEncoder ''five'' \<and>
   typeEncoder Money
     (regenc (RegisterEncoder (RegisterEncoder NewEncoder (VInt Money 5) (constEncoder ''five''))
        (VInt Money 7) (constEncoder ''money''))) = constEncoder ''money'' \<and>
   typeEncoder Money
     (regenc (RegisterEncoder (RegisterEncoder NewEncoder (VInt Money 5) (constEncoder ''five''))
        (VString TString ''s'') (constEncoder ''string''))) = constEncoder ''five'' \<and>
   typeEncoder TString
     (regenc (RegisterEncoder (RegisterEncoder NewEncoder (VInt Money 5) (constEncoder ''five''))
        (VString TString ''s'') (constEncoder ''string''))) = constEncoder ''string'' \<and>
   typeEncoder Money (regenc NewEncoder) = Some encodeInt \<and>
   typeEncoder (TMap TString Money) (regenc NewEncoder) = None"
  using registered_encoder_wins [of NewEncoder Money _ "VInt Money 5" "constEncoder ''five''"
          "VInt Money 7" "constEncoder ''money''"]
        registered_encoder_wins [of NewEncoder "TMap TString Money" _ "VInt Money 5"
          "constEncoder ''five''" "VString TString ''s''" "constEncoder ''string''"]
        registered_encoder_wins [of
          "RegisterEncoder NewEncoder (VInt Money 5) (constEncoder ''five'')" TString _
          "VString TString ''s''" "constEncoder ''string''"
          "VString TString ''s''" "constEncoder ''string''"]
  by (simp add: Money_def)

text \<open>
  C6, as amended. For a pointer type that has no encoder registered for the pointer type
  itself and whose element type resolves to an encoder \<open>g\<close>, \<^verbatim>\<open>typeEncoder\<close> returns an
  encoder that gives \<^verbatim>\<open>null\<close> on the nil pointer and, on a pointer to \<open>x\<close>, what \<open>g\<close>
  gives on \<open>x\<close>.
\<close>

theorem pointer_encoder:
  assumes "Kind t = KPtr" and "Elem t = Some t'"
    and "Mapping.lookup reg t = None"
    and "typeEncoder t' reg = Some g"
  shows "\<exists>h. typeEncoder t reg = Some h \<and>
           (\<forall>fl. h fl (VPtr t None) = Some ''null'' \<and> (\<forall>x. h fl (VPtr t (Some x)) = g fl x))"
  using assms by (simp add: typeEncoder_Ptr call_def)

theorem pointer_encoder_witness:
  "\<exists>h. typeEncoder (TPtr TInt) Mapping.empty = Some h \<and>
        (\<forall>fl. h fl (VPtr (TPtr TInt) None) = Some ''null'' \<and>
              (\<forall>x. h fl (VPtr (TPtr TInt) (Some x)) = encodeInt fl x))"
  using pointer_encoder [where t = "TPtr TInt" and t' = TInt and reg = Mapping.empty
      and g = encodeInt]
  by (simp add: typeEncoder_builtin)

text \<open>
  As the claim states it, for every pointer type whose element type has an encoder, it
  fails when an encoder is registered for the pointer type: with an encoder registered
  for \<^verbatim>\<open>*int\<close>, the element type \<^verbatim>\<open>int\<close> resolves to the built-in, and the encoder resolved
  for \<^verbatim>\<open>*int\<close> is the registered one, on the nil pointer and on a pointer to 7.
\<close>

theorem pointer_encoder_counterexample:
  "typeEncoder TInt (regenc (RegisterEncoder NewEncoder (VPtr (TPtr TInt) None) (constEncoder ''custom'')))
     = Some encodeInt \<and>
   call (typeEncoder (TPtr TInt)
           (regenc (RegisterEncoder NewEncoder (VPtr (TPtr TInt) None) (constEncoder ''custom''))))
     NoRO (VPtr (TPtr TInt) None) = Some ''custom'' \<and>
   call (typeEncoder (TPtr TInt)
           (regenc (RegisterEncoder NewEncoder (VPtr (TPtr TInt) None) (constEncoder ''custom''))))
     NoRO (VPtr (TPtr TInt) (Some (VInt TInt 7))) = Some ''custom'' \<and>
   encodeInt NoRO (VInt TInt 7) = Some ''7''"
  by (simp add: RegisterEncoder_def NewEncoder_def typeEncoder_registered typeEncoder_builtin
      FormatInt_def FormatUint.simps digit_def)

section \<open>The structural error\<close>

text \<open>
  C8. When the input is nil or a value that is no struct and, if it is a pointer, is nil
  or points to a value that is no struct, \<^verbatim>\<open>encode\<close> returns the error
  \<^verbatim>\<open>schema: interface must be a struct\<close>, which is no composite, and the collector as it
  was; so do the two entry points, \<^verbatim>\<open>EncodeValues\<close> with no collector.
\<close>

theorem encode_not_struct:
  assumes "\<forall>x. src = Some x \<longrightarrow> Kind (Type x) \<noteq> KStruct"
    and "\<forall>t p. src = Some (VPtr t (Some p)) \<longrightarrow> Kind t = KPtr \<longrightarrow> Kind (Type p) \<noteq> KStruct"
  shows "encode e fl src vals = Some (Some ErrNotStruct, vals) \<and>
         EncodeValues e src = Some (None, Some ErrNotStruct) \<and>
         Encoder_Encode e src dst = Some (Some ErrNotStruct, dst)"
proof -
  have k: "vKind (if vKind src = KPtr then vElem src else src) \<noteq> KStruct"
  proof (cases src)
    case None
    then show ?thesis by simp
  next
    case (Some x)
    show ?thesis
    proof (cases "vKind src = KPtr")
      case True
      show ?thesis
      proof (cases "vElem src")
        case None
        with True show ?thesis by simp
      next
        case (Some p)
        with \<open>src = Some x\<close> obtain t where "x = VPtr t (Some p)"
          by (cases x) auto
        with True Some \<open>src = Some x\<close> assms(2) show ?thesis by simp
      qed
    next
      case False
      with Some assms(1) show ?thesis by simp
    qed
  qed
  have enc: "encode e fl' src c = Some (Some ErrNotStruct, c)" for c fl'
    using k by (simp add: encode.simps)
  show ?thesis
    using enc by (simp add: EncodeValues_def Encoder_Encode_def)
qed

theorem encode_not_struct_witness:
  "encode NewEncoder NoRO (Some (VPtr (TPtr (TPtr (TStruct ''main.S''))) (Some (VPtr (TPtr (TStruct ''main.S''))
       (Some (VStruct (TStruct ''main.S'') None [Field ''A'' [] True False (VString TString ''a'')]))))))
     \<lparr>keys = [''k''], values = Mapping.update ''k'' [''v''] Mapping.empty\<rparr>
   = Some (Some ErrNotStruct, \<lparr>keys = [''k''], values = Mapping.update ''k'' [''v''] Mapping.empty\<rparr>) \<and>
   EncodeValues NewEncoder None = Some (None, Some ErrNotStruct) \<and>
   Encoder_Encode NewEncoder (Some (VString TString ''a'')) Mapping.empty = Some (Some ErrNotStruct, Mapping.empty)"
  using encode_not_struct [where src = "Some (VPtr (TPtr (TPtr (TStruct ''main.S''))) (Some (VPtr (TPtr (TStruct ''main.S''))
       (Some (VStruct (TStruct ''main.S'') None [Field ''A'' [] True False (VString TString ''a'')])))))"
       and e = NewEncoder and fl = NoRO
       and vals = "\<lparr>keys = [''k''], values = Mapping.update ''k'' [''v''] Mapping.empty\<rparr>"]
    encode_not_struct [where src = None and e = NewEncoder]
    encode_not_struct [where src = "Some (VString TString ''a'')" and e = NewEncoder
       and dst = Mapping.empty]
  by simp

section \<open>The encoding of one field\<close>

text \<open>The branches of the loop body, one lemma for each.\<close>

lemma encodeField_skip: "name f = ''-'' \<Longrightarrow> encodeField e fl f errs vals = Some (errs, vals)"
  by (simp add: encodeField.simps)

lemma no_encoder_no_struct_pointer:
  assumes "typeEncoder (Type v) (regenc e) = None"
  shows "\<not> (isValidStructPointer v \<and> \<not> hasCustomEncoder e (Type v))"
proof
  assume a: "isValidStructPointer v \<and> \<not> hasCustomEncoder e (Type v)"
  then have k: "Kind (Type v) = KPtr" and l: "Mapping.lookup (regenc e) (Type v) = None"
    by (simp_all add: isValidStructPointer_def hasCustomEncoder_def)
  from k obtain t' where "Elem (Type v) = Some t'"
    using Kind_Ptr_Elem by blast
  with k l have "typeEncoder (Type v) (regenc e) \<noteq> None"
    by (simp add: typeEncoder_Ptr)
  with assms show False by simp
qed

lemma encodeField_scalar:
  assumes "name f \<noteq> ''-''"
    and "\<not> (isValidStructPointer (val f) \<and> \<not> hasCustomEncoder e (Type (val f)))"
    and "typeEncoder (Type (val f)) (regenc e) = Some enc"
  shows "encodeField e fl f errs vals =
           (case enc (fieldFlag fl f) (val f) of
              None \<Rightarrow> None
            | Some value \<Rightarrow>
                if Contains (opts f) ''omitempty'' then
                  (case isZero (fieldFlag fl f) (val f) of
                     None \<Rightarrow> None
                   | Some z \<Rightarrow>
                       if z then Some (errs, vals)
                       else Some (errs, appendValue vals (name f) value))
                else Some (errs, appendValue vals (name f) value))"
proof -
  have "(isValidStructPointer (val f) \<and> \<not> hasCustomEncoder e (Type (val f))) = False"
    using assms(2) by simp
  with assms(1,3) show ?thesis
    by (subst encodeField.simps) (simp del: de_Morgan_conj)
qed

lemma encodeField_slice:
  assumes "name f \<noteq> ''-''"
    and "typeEncoder (Type (val f)) (regenc e) = None"
    and "Kind (Type (val f)) = KSlice"
    and "Elem (Type (val f)) = Some t'"
    and "typeEncoder t' (regenc e) = Some enc"
  shows "encodeField e fl f errs vals =
           (if length (elems (val f)) = 0 \<and> Contains (opts f) ''omitempty''
            then Some (errs, vals)
            else (case encodeElems enc (indexFlag (fieldFlag fl f)) (elems (val f)) [] of
                    None \<Rightarrow> None
                  | Some strs \<Rightarrow> Some (errs, replaceValues vals (name f) strs)))"
proof -
  have "(isValidStructPointer (val f) \<and> \<not> hasCustomEncoder e (Type (val f))) = False"
    using no_encoder_no_struct_pointer [OF assms(2)] by simp
  with assms show ?thesis
    by (subst encodeField.simps) (simp del: de_Morgan_conj)
qed

lemma encodeField_struct:
  assumes "name f \<noteq> ''-''"
    and "typeEncoder (Type (val f)) (regenc e) = None"
    and "Kind (Type (val f)) = KStruct"
  shows "encodeField e fl f errs vals =
           (case encode e (fieldFlag fl f) (Some (val f)) vals of
              None \<Rightarrow> None
            | Some (err, vals') \<Rightarrow>
                Some (recordError (TypeString (Type (val f))) err errs, vals'))"
proof -
  have "(isValidStructPointer (val f) \<and> \<not> hasCustomEncoder e (Type (val f))) = False"
    using no_encoder_no_struct_pointer [OF assms(2)] by simp
  with assms show ?thesis
    by (subst encodeField.simps) (simp del: de_Morgan_conj)
qed

lemma encodeField_struct_pointer:
  assumes "name f \<noteq> ''-''"
    and "isValidStructPointer (val f)" and "\<not> hasCustomEncoder e (Type (val f))"
  shows "encodeField e fl f errs vals =
           (case encode e (fieldFlag fl f) (vElem (Some (val f))) vals of
              None \<Rightarrow> None
            | Some (err, vals') \<Rightarrow>
                Some (recordError (vTypeString (vElem (Some (val f)))) err errs, vals'))"
  using assms by (subst encodeField.simps) simp

lemma encodeField_unencodable:
  assumes "unencodable e f"
  shows "encodeField e fl f errs vals =
           Some (AList.update (TypeString (Type (val f))) (ErrNoEncoder (val f)) errs, vals)"
proof -
  from assms have n: "name f \<noteq> ''-''" and t: "typeEncoder (Type (val f)) (regenc e) = None"
    and k: "Kind (Type (val f)) \<noteq> KStruct"
    and s: "(case Elem (Type (val f)) of
              Some t' \<Rightarrow> Kind (Type (val f)) \<noteq> KSlice \<or> typeEncoder t' (regenc e) = None
            | None \<Rightarrow> True)"
    by (simp_all add: unencodable_def)
  from s have s': "(if Kind (Type (val f)) = KSlice
         then (case Elem (Type (val f)) of Some t' \<Rightarrow> typeEncoder t' (regenc e) | None \<Rightarrow> None)
         else None) = None"
    by (auto split: option.splits)
  have "(isValidStructPointer (val f) \<and> \<not> hasCustomEncoder e (Type (val f))) = False"
    using no_encoder_no_struct_pointer [OF t] by simp
  with n k show ?thesis
    by (subst encodeField.simps) (simp only: t s' if_False option.case simp_thms)
qed

lemma lookup_default_eq:
  "Mapping.lookup_default d m k = (case Mapping.lookup m k of None \<Rightarrow> d | Some v \<Rightarrow> v)"
  by (simp add: Mapping.lookup_default_def)

lemma values_appendValue:
  "Mapping.lookup (values (appendValue vals k s)) k' =
     (if k' = k then Some (Mapping.lookup_default [] (values vals) k @ [s])
      else Mapping.lookup (values vals) k')"
  by (simp add: appendValue_def Let_def Mapping.lookup_update')

lemma keys_appendValue:
  "keys (appendValue vals k s) =
     (if Mapping.lookup (values vals) k = None then keys vals @ [k] else keys vals)"
  by (simp add: appendValue_def Let_def)

lemma values_replaceValues:
  "Mapping.lookup (values (replaceValues vals k strs)) k' =
     (if k' = k then Some strs else Mapping.lookup (values vals) k')"
  by (simp add: replaceValues_def removeKey_def Let_def Mapping.lookup_update')

lemma keys_replaceValues:
  "keys (replaceValues vals k strs) =
     (if Mapping.lookup (values vals) k \<noteq> None then remove1 k (keys vals) @ [k]
      else keys vals @ [k])"
  by (simp add: replaceValues_def removeKey_def Let_def)

lemma encodeElems_all2:
  "list_all2 (\<lambda>x s. enc fl x = Some s) xs strs \<Longrightarrow> encodeElems enc fl xs acc = Some (acc @ strs)"
  by (induction xs strs arbitrary: acc rule: list_all2_induct) auto

text \<open>
  C1, as amended. For a field whose alias is not \<^verbatim>\<open>-\<close>, whose type is no struct and has
  no encoder (\<^verbatim>\<open>typeEncoder\<close> returns nil for it, which excludes the pointer types without
  a registration) and, when it is a slice, whose element type has no encoder either,
  the loop body records the error \<^verbatim>\<open>encoder not found\<close> under the name of the field's
  type, leaves the collector as it is and does not panic, and the loop goes on with the
  next field.
\<close>

theorem unencodable_field_error:
  assumes "name f \<noteq> ''-''"
    and "typeEncoder (Type (val f)) (regenc e) = None"
    and "Kind (Type (val f)) \<noteq> KStruct"
    and "\<And>t'. Kind (Type (val f)) = KSlice \<Longrightarrow> Elem (Type (val f)) = Some t' \<Longrightarrow>
           typeEncoder t' (regenc e) = None"
  shows "encodeField e fl f errs vals =
           Some (AList.update (TypeString (Type (val f))) (ErrNoEncoder (val f)) errs, vals) \<and>
         encodeFields e fl (f # fs) errs vals =
           encodeFields e fl fs
             (AList.update (TypeString (Type (val f))) (ErrNoEncoder (val f)) errs) vals \<and>
         map_of (AList.update (TypeString (Type (val f))) (ErrNoEncoder (val f)) errs)
             (TypeString (Type (val f))) = Some (ErrNoEncoder (val f))"
proof -
  have "unencodable e f"
    using assms by (auto simp: unencodable_def split: option.splits)
  then show ?thesis
    by (simp add: encodeField_unencodable update_conv')
qed

theorem unencodable_field_error_witness:
  "encodeField NewEncoder NoRO (Field ''M'' [] True False (VMap (TMap TString TInt) None)) []
      \<lparr>keys = [], values = Mapping.empty\<rparr> =
     Some ([(''map[string]int'', ErrNoEncoder (VMap (TMap TString TInt) None))],
           \<lparr>keys = [], values = Mapping.empty\<rparr>) \<and>
   encodeFields NewEncoder NoRO [Field ''M'' [] True False (VMap (TMap TString TInt) None)] []
      \<lparr>keys = [], values = Mapping.empty\<rparr> =
     Some ([(''map[string]int'', ErrNoEncoder (VMap (TMap TString TInt) None))],
           \<lparr>keys = [], values = Mapping.empty\<rparr>)"
  using unencodable_field_error [where f = "Field ''M'' [] True False (VMap (TMap TString TInt) None)"
      and e = NewEncoder and fl = NoRO and errs = "[]"
      and vals = "\<lparr>keys = [], values = Mapping.empty\<rparr>" and fs = "[]"]
  by (simp add: NewEncoder_def typeEncoder_builtin)

text \<open>
  As the claim states it, with the pointers to types without an encoder, it fails: the
  map type has no encoder, and a nil pointer to a map is encoded as \<^verbatim>\<open>null\<close> with no
  error recorded.
\<close>

theorem unencodable_field_error_counterexample:
  "typeEncoder (TMap TString TInt) (regenc NewEncoder) = None \<and>
   encodeField NewEncoder NoRO (Field ''M'' [] True False (VPtr (TPtr (TMap TString TInt)) None)) []
      \<lparr>keys = [], values = Mapping.empty\<rparr> =
     Some ([], \<lparr>keys = [''M''], values = Mapping.update ''M'' [''null''] Mapping.empty\<rparr>)"
  by (simp add: NewEncoder_def typeEncoder_builtin encodeField.simps isValidStructPointer_def
      hasCustomEncoder_def Contains_def appendValue_def lookup_default_eq)

text \<open>
  A pointer to a map that is not nil makes the loop body panic: the encoder of the
  pointer type calls the encoder of the map type, which is nil.
\<close>

lemma pointer_to_map_panics:
  "encodeField NewEncoder NoRO
     (Field ''M'' [] True False (VPtr (TPtr (TMap TString TInt)) (Some (VMap (TMap TString TInt) None)))) []
     \<lparr>keys = [], values = Mapping.empty\<rparr> = None"
  by (simp add: NewEncoder_def typeEncoder_builtin encodeField.simps isValidStructPointer_def
      hasCustomEncoder_def call_def)

text \<open>
  C9, as amended. For a field whose alias is not \<^verbatim>\<open>-\<close>, of a pointer-to-struct type with
  no encoder registered for the pointer type, without \<^verbatim>\<open>omitempty\<close>, and holding nil, the
  loop body records no error and appends the one value \<^verbatim>\<open>null\<close> to the values of the
  field's alias (the alias joins the key order when it had no values); it leaves the
  other keys as they are. No encoder of the struct type is needed.
\<close>

theorem nil_pointer_null:
  assumes "name f \<noteq> ''-''"
    and "val f = VPtr t None" and "Kind t = KPtr" and "Elem t = Some t'" and "Kind t' = KStruct"
    and "\<not> hasCustomEncoder e t"
    and "\<not> Contains (opts f) ''omitempty''"
  shows "\<exists>vals'. encodeField e fl f errs vals = Some (errs, vals') \<and>
           Mapping.lookup (values vals') (name f) =
             Some (Mapping.lookup_default [] (values vals) (name f) @ [''null'']) \<and>
           (\<forall>k. k \<noteq> name f \<longrightarrow>
              Mapping.lookup (values vals') k = Mapping.lookup (values vals) k) \<and>
           keys vals' =
             (if Mapping.lookup (values vals) (name f) = None then keys vals @ [name f]
              else keys vals)"
proof -
  from assms have l: "Mapping.lookup (regenc e) t = None"
    by (simp add: hasCustomEncoder_def)
  have enc: "typeEncoder (Type (val f)) (regenc e) = Some (encodePtr (typeEncoder t' (regenc e)))"
    using assms l by (simp add: typeEncoder_Ptr)
  have nv: "\<not> (isValidStructPointer (val f) \<and> \<not> hasCustomEncoder e (Type (val f)))"
    using assms by (simp add: isValidStructPointer_def)
  have "encodeField e fl f errs vals = Some (errs, appendValue vals (name f) ''null'')"
    using assms(2,7) by (simp add: encodeField_scalar [OF assms(1) nv enc])
  then show ?thesis
    by (simp add: values_appendValue keys_appendValue)
qed

theorem nil_pointer_null_witness:
  "\<exists>vals'. encodeField NewEncoder NoRO (Field ''P'' [] True False (VPtr (TPtr (TStruct ''main.S'')) None)) []
               \<lparr>keys = [''A''], values = Mapping.update ''A'' [''a''] Mapping.empty\<rparr> = Some ([], vals') \<and>
      Mapping.lookup (values vals') ''P'' = Some [''null''] \<and>
      Mapping.lookup (values vals') ''A'' = Some [''a''] \<and>
      keys vals' = [''A'', ''P'']"
  using nil_pointer_null [where f = "Field ''P'' [] True False (VPtr (TPtr (TStruct ''main.S'')) None)"
      and t = "TPtr (TStruct ''main.S'')" and t' = "TStruct ''main.S''" and e = NewEncoder
      and fl = NoRO and errs = "[]"
      and vals = "\<lparr>keys = [''A''], values = Mapping.update ''A'' [''a''] Mapping.empty\<rparr>"]
  by (auto simp: NewEncoder_def hasCustomEncoder_def Contains_def lookup_default_eq)

text \<open>
  As the claim states it, for every such field, it fails on the alias \<^verbatim>\<open>-\<close>: the field
  is skipped and nothing is emitted.
\<close>

theorem nil_pointer_null_counterexample:
  "\<not> hasCustomEncoder NewEncoder (TPtr (TStruct ''main.S'')) \<and>
   \<not> Contains [] ''omitempty'' \<and>
   encodeField NewEncoder NoRO (Field ''-'' [] True False (VPtr (TPtr (TStruct ''main.S'')) None)) []
     \<lparr>keys = [], values = Mapping.empty\<rparr> = Some ([], \<lparr>keys = [], values = Mapping.empty\<rparr>)"
  by (simp add: NewEncoder_def hasCustomEncoder_def Contains_def encodeField.simps)

text \<open>
  \<^verbatim>\<open>encode\<close> keeps the key order free of repetitions: the collector it returns is
  ordered when the collector it was given is, as the empty one is.
\<close>

lemma ordered_appendValue: "ordered c \<Longrightarrow> ordered (appendValue c k s)"
  by (auto simp: ordered_def keys_appendValue values_appendValue)

lemma ordered_replaceValues: "ordered c \<Longrightarrow> ordered (replaceValues c k strs)"
  by (auto simp: ordered_def keys_replaceValues values_replaceValues dest: notin_set_remove1)

lemma ordered_encode:
  "(\<forall>r vals'. encode e fl v vals = Some (r, vals') \<longrightarrow> ordered vals \<longrightarrow> ordered vals')"
  "(\<forall>errs' vals'. encodeFields e fl fs errs vals = Some (errs', vals') \<longrightarrow> ordered vals \<longrightarrow> ordered vals')"
  "(\<forall>errs' vals'. encodeField e fl f errs vals = Some (errs', vals') \<longrightarrow> ordered vals \<longrightarrow> ordered vals')"
proof (induction e fl v vals and e fl fs errs vals and e fl f errs vals
    rule: encode_encodeFields_encodeField.induct)
  case (1 e fl v vals)
  then show ?case
    by (auto simp: encode.simps Let_def split: if_splits option.splits)
next
  case (2 e fl errors vals)
  then show ?case by simp
next
  case (3 e fl f fs errors vals)
  then show ?case
    by (auto split: option.splits)
next
  case (4 e fl f errors vals)
  show ?case
  proof (intro allI impI)
    fix errs' vals'
    assume r: "encodeField e fl f errors vals = Some (errs', vals')" and o: "ordered vals"
    from r have "vals' = vals \<or> (\<exists>s. vals' = appendValue vals (name f) s) \<or>
        (\<exists>strs. vals' = replaceValues vals (name f) strs) \<or>
        (\<exists>err. name f \<noteq> ''-'' \<and> isValidStructPointer (val f) \<and> \<not> hasCustomEncoder e (Type (val f)) \<and>
           encode e (fieldFlag fl f) (vElem (Some (val f))) vals = Some (err, vals')) \<or>
        (\<exists>err. name f \<noteq> ''-'' \<and> \<not> (isValidStructPointer (val f) \<and> \<not> hasCustomEncoder e (Type (val f))) \<and>
           typeEncoder (Type (val f)) (regenc e) = None \<and> Kind (Type (val f)) = KStruct \<and>
           encode e (fieldFlag fl f) (Some (val f)) vals = Some (err, vals'))"
      by (force simp: encodeField.simps split: if_splits option.splits prod.splits)
    with o "4.IH" show "ordered vals'"
      by (auto simp: ordered_appendValue ordered_replaceValues)
  qed
qed

text \<open>
  C3, as amended. Take a slice field with an alias other than \<^verbatim>\<open>-\<close>, no encoder
  registered for the slice type itself, an encoder for the element type that returns
  on every element, and not both empty and \<^verbatim>\<open>omitempty\<close>. Encoded into a collector
  whose map has an entry for the alias and whose key order has no key twice (as in every
  ordered collector), the field
  leaves the alias once in the key order, at the end and behind the other keys in their
  order, with the encoded elements as its only values, in element order; the values of
  the other keys stay.
\<close>

theorem slice_replaces:
  assumes "name f \<noteq> ''-''"
    and "val f = VSlice t xs" and "Kind t = KSlice" and "Elem t = Some t'"
    and "\<not> hasCustomEncoder e t"
    and "typeEncoder t' (regenc e) = Some enc"
    and "list_all2 (\<lambda>x s. enc (indexFlag (fieldFlag fl f)) x = Some s) (elems (val f)) strs"
    and "\<not> (elems (val f) = [] \<and> Contains (opts f) ''omitempty'')"
    and "Mapping.lookup (values vals) (name f) \<noteq> None"
    and "distinct (keys vals)"
  shows "\<exists>vals'. encodeField e fl f errs vals = Some (errs, vals') \<and>
           keys vals' = filter (\<lambda>k. k \<noteq> name f) (keys vals) @ [name f] \<and>
           Mapping.lookup (values vals') (name f) = Some strs \<and>
           (\<forall>k. k \<noteq> name f \<longrightarrow>
              Mapping.lookup (values vals') k = Mapping.lookup (values vals) k) \<and>
           count_list (keys vals') (name f) = 1"
proof -
  have none: "typeEncoder (Type (val f)) (regenc e) = None"
    using assms(2,3,5) by (simp add: hasCustomEncoder_def typeEncoder_builtin)
  have "encodeField e fl f errs vals = Some (errs, replaceValues vals (name f) strs)"
    using assms(2,3,4,6,8)
      encodeElems_all2 [where enc = enc and fl = "indexFlag (fieldFlag fl f)" and acc = "[]",
        OF assms(7)]
    by (subst encodeField_slice [OF assms(1) none, where t' = t' and enc = enc]) auto
  moreover have "remove1 (name f) (keys vals) = filter (\<lambda>k. k \<noteq> name f) (keys vals)"
    using assms(10) by (simp add: distinct_remove1_removeAll removeAll_filter_not_eq) metis
  moreover have "count_list (filter (\<lambda>k. k \<noteq> name f) (keys vals)) (name f) = 0"
    by (simp add: count_list_0_iff)
  ultimately show ?thesis
    using assms(9) by (simp add: keys_replaceValues values_replaceValues)
qed

theorem slice_replaces_witness:
  "\<exists>vals'. encodeField NewEncoder NoRO
       (Field ''Tags'' [] True False (VSlice (TSlice TString) (Some [VString TString ''x'', VString TString ''y''])))
       [] \<lparr>keys = [''Tags'', ''Z''],
            values = Mapping.update ''Tags'' [''old''] (Mapping.update ''Z'' [''z''] Mapping.empty)\<rparr>
       = Some ([], vals') \<and>
     keys vals' = [''Z'', ''Tags''] \<and>
     Mapping.lookup (values vals') ''Tags'' = Some [''x'', ''y''] \<and>
     Mapping.lookup (values vals') ''Z'' = Some [''z'']"
  using slice_replaces [where f = "Field ''Tags'' [] True False (VSlice (TSlice TString) (Some [VString TString ''x'', VString TString ''y'']))"
      and t = "TSlice TString" and xs = "Some [VString TString ''x'', VString TString ''y'']"
      and t' = TString and e = NewEncoder and fl = NoRO
      and enc = encodeString and strs = "[''x'', ''y'']"
      and vals = "\<lparr>keys = [''Tags'', ''Z''],
            values = Mapping.update ''Tags'' [''old''] (Mapping.update ''Z'' [''z''] Mapping.empty)\<rparr>"
      and errs = "[]"]
  by (auto simp: NewEncoder_def hasCustomEncoder_def typeEncoder_builtin)

text \<open>
  As the claim states it, for every slice field, it fails when an encoder is registered
  for the slice type: the field is then encoded by that encoder, whose one string is
  appended to the prior values of the key, and the key keeps its place.
\<close>

theorem slice_replaces_counterexample:
  "encodeField
     (RegisterEncoder NewEncoder (VSlice (TSlice TString) None) (constEncoder ''custom'')) NoRO
     (Field ''Tags'' [] True False (VSlice (TSlice TString) (Some [VString TString ''x'', VString TString ''y''])))
     [] \<lparr>keys = [''Tags'', ''Z''],
          values = Mapping.update ''Tags'' [''old''] (Mapping.update ''Z'' [''z''] Mapping.empty)\<rparr>
   = Some ([], \<lparr>keys = [''Tags'', ''Z''],
          values = Mapping.update ''Tags'' [''old'', ''custom'']
            (Mapping.update ''Tags'' [''old''] (Mapping.update ''Z'' [''z''] Mapping.empty))\<rparr>)"
  by (simp add: encodeField.simps RegisterEncoder_def NewEncoder_def isValidStructPointer_def
      typeEncoder_registered constEncoder_def Contains_def appendValue_def lookup_default_eq)

text \<open>
  When \<^verbatim>\<open>isZero\<close> returns, it says whether the value is the zero or empty value of its
  type.
\<close>

lemma isZero_zeroValue:
  "isZero fl v = Some z \<Longrightarrow> z = zeroValue v"
  "isZeroElems fl z0 xs = Some z \<Longrightarrow> z = (z0 \<and> zeroElems xs)"
  "isZeroFields fl z0 fs = Some z \<Longrightarrow> z = (z0 \<and> zeroFields fs)"
  by (induction fl v and fl z0 xs and fl z0 fs arbitrary: z and z and z
      rule: isZero_isZeroElems_isZeroFields.induct)
    (auto split: if_splits option.splits)

text \<open>
  The loop body on a field with \<^verbatim>\<open>omitempty\<close> for which \<^verbatim>\<open>isZero\<close> returns \<open>z\<close>,
  against the same field with options \<open>os\<close> that do not hold \<^verbatim>\<open>omitempty\<close>.
\<close>

lemma encodeField_omitempty:
  assumes "Contains (opts f) ''omitempty''" and "\<not> Contains os ''omitempty''"
    and "isZero (fieldFlag fl f) (val f) = Some z"
    and "Kind (Type (val f)) = KSlice \<Longrightarrow> \<exists>t xs. val f = VSlice t xs"
    and "\<And>enc. z \<Longrightarrow> typeEncoder (Type (val f)) (regenc e) = Some enc \<Longrightarrow> enc (fieldFlag fl f) (val f) \<noteq> None"
    and "z \<Longrightarrow> Kind (Type (val f)) = KStruct \<Longrightarrow> typeEncoder (Type (val f)) (regenc e) \<noteq> None"
  shows "(z \<longrightarrow> (\<exists>errs'. encodeField e fl f errs vals = Some (errs', vals))) \<and>
         (\<not> z \<longrightarrow> encodeField e fl f errs vals = encodeField e fl (Field (name f) os (exported f) (anonymous f) (val f)) errs vals)"
proof -
  let ?g = "Field (name f) os (exported f) (anonymous f) (val f)"
  have g: "name ?g = name f" "val ?g = val f" "opts ?g = os"
    by simp_all
  have fg: "fieldFlag fl ?g = fieldFlag fl f"
    by (simp add: fieldFlag_def)
  consider (skip) "name f = ''-''"
    | (ptr) "name f \<noteq> ''-''" "isValidStructPointer (val f)" "\<not> hasCustomEncoder e (Type (val f))"
    | (scalar) enc where "name f \<noteq> ''-''"
        "\<not> (isValidStructPointer (val f) \<and> \<not> hasCustomEncoder e (Type (val f)))"
        "typeEncoder (Type (val f)) (regenc e) = Some enc"
    | (struct) "name f \<noteq> ''-''" "typeEncoder (Type (val f)) (regenc e) = None"
        "Kind (Type (val f)) = KStruct"
    | (slice) t' enc where "name f \<noteq> ''-''" "typeEncoder (Type (val f)) (regenc e) = None"
        "Kind (Type (val f)) = KSlice" "Elem (Type (val f)) = Some t'"
        "typeEncoder t' (regenc e) = Some enc"
    | (none) "unencodable e f"
  proof (cases "typeEncoder (Type (val f)) (regenc e)")
    case (Some enc)
    with skip ptr scalar show ?thesis by blast
  next
    case None
    show ?thesis
    proof (cases "Kind (Type (val f)) = KSlice")
      case True
      then obtain t' where t': "Elem (Type (val f)) = Some t'"
        using Kind_Slice_Elem by blast
      show ?thesis
      proof (cases "typeEncoder t' (regenc e)")
        case (Some enc)
        with None True t' skip slice show ?thesis by blast
      next
        case n: None
        with None True t' have "name f \<noteq> ''-'' \<Longrightarrow> unencodable e f"
          by (simp add: unencodable_def)
        with skip none show ?thesis by blast
      qed
    next
      case False
      with None have "name f \<noteq> ''-'' \<Longrightarrow> Kind (Type (val f)) \<noteq> KStruct \<Longrightarrow> unencodable e f"
        by (simp add: unencodable_def split: option.splits)
      with None skip struct none show ?thesis by blast
    qed
  qed
  then show ?thesis
  proof cases
    case skip
    then show ?thesis by (simp add: encodeField_skip)
  next
    case ptr
    from ptr(2) obtain t p where "val f = VPtr t (Some p)"
      by (cases "val f") (auto simp: isValidStructPointer_def)
    with assms(3) have "\<not> z" by (simp split: if_splits)
    moreover have "encodeField e fl f errs vals = encodeField e fl ?g errs vals"
      using ptr by (simp add: encodeField_struct_pointer fg cong: option.case_cong)
    ultimately show ?thesis by simp
  next
    case scalar
    have f: "encodeField e fl f errs vals =
        (case enc (fieldFlag fl f) (val f) of None \<Rightarrow> None
         | Some value \<Rightarrow> if z then Some (errs, vals)
                          else Some (errs, appendValue vals (name f) value))"
      using assms(1,3) by (simp add: encodeField_scalar [OF scalar] cong: option.case_cong)
    have "encodeField e fl ?g errs vals =
        (case enc (fieldFlag fl f) (val f) of None \<Rightarrow> None
         | Some value \<Rightarrow> Some (errs, appendValue vals (name f) value))"
      using assms(2) scalar
      by (subst encodeField_scalar [where f = ?g and e = e and enc = enc])
        (simp_all add: fg cong: option.case_cong)
    with f assms(5) [of enc] scalar(3) show ?thesis
      by (auto split: option.splits)
  next
    case struct
    with assms(6) have "\<not> z" by auto
    moreover have "encodeField e fl f errs vals = encodeField e fl ?g errs vals"
      using struct by (simp add: encodeField_struct fg cong: option.case_cong)
    ultimately show ?thesis by simp
  next
    case slice
    from assms(4) slice(3) obtain t xs where v: "val f = VSlice t xs" by blast
    with assms(3) have z: "z \<longleftrightarrow> elems (val f) = []"
      by (cases xs) auto
    have "encodeField e fl f errs vals =
        (if z then Some (errs, vals)
         else (case encodeElems enc (indexFlag (fieldFlag fl f)) (elems (val f)) [] of None \<Rightarrow> None
               | Some strs \<Rightarrow> Some (errs, replaceValues vals (name f) strs)))"
      using assms(1) z by (simp add: encodeField_slice [OF slice] cong: option.case_cong)
    moreover have "\<not> z \<Longrightarrow> encodeField e fl ?g errs vals =
        (case encodeElems enc (indexFlag (fieldFlag fl f)) (elems (val f)) [] of None \<Rightarrow> None
         | Some strs \<Rightarrow> Some (errs, replaceValues vals (name f) strs))"
      using assms(2) slice z
      by (subst encodeField_slice [where f = ?g and e = e and t' = t' and enc = enc])
        (simp_all add: fg cong: option.case_cong)
    ultimately show ?thesis by simp
  next
    case none
    then have "unencodable e ?g"
      by (simp add: unencodable_def split: option.splits)
    with none show ?thesis
      by (simp add: encodeField_unencodable)
  qed
qed

text \<open>
  C5, as amended. Take a field with \<^verbatim>\<open>omitempty\<close> on which \<^verbatim>\<open>isZero\<close> returns (it panics
  on a function, and when it has to call \<^verbatim>\<open>IsZero\<close> or \<^verbatim>\<open>v.Interface()\<close> on a value read
  through an unexported field). Then \<^verbatim>\<open>isZero\<close> returns whether the value is the zero or
  empty value of its type, by the type's own \<^verbatim>\<open>IsZero\<close> when a struct type has the
  method. If the value is not zero, the loop body does what it does for the same field
  without the option. If it is zero, the loop body leaves the collector as it is, provided
  that the encoder of the field's own type, when there is one, returns on the value, and
  that the field is not of a struct type without an encoder. (The value of a slice type
  is a slice.)
\<close>

theorem omitempty_field:
  assumes "Contains (opts f) ''omitempty''" and "\<not> Contains os ''omitempty''"
    and "isZero (fieldFlag fl f) (val f) \<noteq> None"
    and "Kind (Type (val f)) = KSlice \<Longrightarrow> \<exists>t xs. val f = VSlice t xs"
    and "\<And>enc. zeroValue (val f) \<Longrightarrow> typeEncoder (Type (val f)) (regenc e) = Some enc \<Longrightarrow>
           enc (fieldFlag fl f) (val f) \<noteq> None"
    and "zeroValue (val f) \<Longrightarrow> Kind (Type (val f)) = KStruct \<Longrightarrow>
           typeEncoder (Type (val f)) (regenc e) \<noteq> None"
  shows "isZero (fieldFlag fl f) (val f) = Some (zeroValue (val f)) \<and>
         (zeroValue (val f) \<longrightarrow> (\<exists>errs'. encodeField e fl f errs vals = Some (errs', vals))) \<and>
         (\<not> zeroValue (val f) \<longrightarrow>
            encodeField e fl f errs vals =
              encodeField e fl (Field (name f) os (exported f) (anonymous f) (val f)) errs vals)"
proof -
  from assms(3) obtain z where "isZero (fieldFlag fl f) (val f) = Some z"
    by auto
  with isZero_zeroValue(1) [OF this]
  have z: "isZero (fieldFlag fl f) (val f) = Some (zeroValue (val f))"
    by simp
  have "(zeroValue (val f) \<longrightarrow> (\<exists>errs'. encodeField e fl f errs vals = Some (errs', vals))) \<and>
        (\<not> zeroValue (val f) \<longrightarrow>
           encodeField e fl f errs vals =
             encodeField e fl (Field (name f) os (exported f) (anonymous f) (val f)) errs vals)"
  proof (rule encodeField_omitempty [OF assms(1,2) z assms(4)])
    fix enc
    assume "zeroValue (val f)" "typeEncoder (Type (val f)) (regenc e) = Some enc"
    then show "enc (fieldFlag fl f) (val f) \<noteq> None" by (rule assms(5))
  next
    assume "zeroValue (val f)" "Kind (Type (val f)) = KStruct"
    then show "typeEncoder (Type (val f)) (regenc e) \<noteq> None" by (rule assms(6))
  qed
  with z show ?thesis by blast
qed

theorem omitempty_field_witness:
  "isZero NoRO (VInt TInt 0) = Some True \<and> isZero NoRO (VInt TInt 5) = Some False \<and>
   (\<exists>errs'. encodeField NewEncoder NoRO (Field ''Count'' [''omitempty''] True False (VInt TInt 0)) []
       \<lparr>keys = [], values = Mapping.empty\<rparr> = Some (errs', \<lparr>keys = [], values = Mapping.empty\<rparr>)) \<and>
   encodeField NewEncoder NoRO (Field ''Count'' [''omitempty''] True False (VInt TInt 5)) []
       \<lparr>keys = [], values = Mapping.empty\<rparr> =
   encodeField NewEncoder NoRO (Field ''Count'' [] True False (VInt TInt 5)) []
       \<lparr>keys = [], values = Mapping.empty\<rparr>"
  using omitempty_field [where f = "Field ''Count'' [''omitempty''] True False (VInt TInt 0)"
          and os = "[]" and e = NewEncoder and fl = NoRO
          and errs = "[]" and vals = "\<lparr>keys = [], values = Mapping.empty\<rparr>"]
        omitempty_field [where f = "Field ''Count'' [''omitempty''] True False (VInt TInt 5)"
          and os = "[]" and e = NewEncoder and fl = NoRO
          and errs = "[]" and vals = "\<lparr>keys = [], values = Mapping.empty\<rparr>"]
  by (simp add: Contains_def NewEncoder_def typeEncoder_builtin fieldFlag_def flagRO_def)

text \<open>
  As the claim states it, for every field with \<^verbatim>\<open>omitempty\<close>, it fails on a struct type
  that has no encoder: the struct is traversed whatever \<^verbatim>\<open>isZero\<close> says, here a struct
  whose own \<^verbatim>\<open>IsZero\<close> method returns true, and the key of its field is emitted.
\<close>

theorem omitempty_field_counterexample:
  "Contains [''omitempty''] ''omitempty'' \<and>
   zeroValue (VStruct (TStruct ''main.Span'') (Some True) [Field ''From'' [] True False (VInt TInt 0)]) \<and>
   isZero NoRO (VStruct (TStruct ''main.Span'') (Some True) [Field ''From'' [] True False (VInt TInt 0)]) = Some True \<and>
   encodeField NewEncoder NoRO
     (Field ''span'' [''omitempty''] True False
        (VStruct (TStruct ''main.Span'') (Some True) [Field ''From'' [] True False (VInt TInt 0)]))
     [] \<lparr>keys = [], values = Mapping.empty\<rparr> =
   Some ([], \<lparr>keys = [''From''], values = Mapping.update ''From'' [''0''] Mapping.empty\<rparr>)"
  by code_simp

text \<open>
  Where \<^verbatim>\<open>isZero\<close> panics, so does the loop body: on an unexported field with
  \<^verbatim>\<open>omitempty\<close> whose value \<^verbatim>\<open>isZero\<close> compares through \<^verbatim>\<open>v.Interface()\<close>, and on a field
  of a registered struct type that has an unexported field, which the loop of \<^verbatim>\<open>isZero\<close>
  reaches when the fields before it are zero. Without the option both fields are encoded.
\<close>

lemma omitempty_unexported_panics:
  "encodeField NewEncoder NoRO (Field ''b'' [''omitempty''] False False (VInt TInt 0)) []
     \<lparr>keys = [], values = Mapping.empty\<rparr> = None \<and>
   encodeField NewEncoder NoRO (Field ''b'' [] False False (VInt TInt 0)) []
     \<lparr>keys = [], values = Mapping.empty\<rparr> =
     Some ([], \<lparr>keys = [''b''], values = Mapping.update ''b'' [''0''] Mapping.empty\<rparr>) \<and>
   encodeField
     (RegisterEncoder NewEncoder (VStruct (TStruct ''main.P'') None []) (constEncoder ''p'')) NoRO
     (Field ''P'' [''omitempty''] True False
        (VStruct (TStruct ''main.P'') None
           [Field ''X'' [] True False (VInt TInt 0), Field ''y'' [] False False (VInt TInt 0)]))
     [] \<lparr>keys = [], values = Mapping.empty\<rparr> = None \<and>
   encodeField
     (RegisterEncoder NewEncoder (VStruct (TStruct ''main.P'') None []) (constEncoder ''p'')) NoRO
     (Field ''P'' [''omitempty''] True False
        (VStruct (TStruct ''main.P'') None
           [Field ''X'' [] True False (VInt TInt 1), Field ''y'' [] False False (VInt TInt 0)]))
     [] \<lparr>keys = [], values = Mapping.empty\<rparr> =
     Some ([], \<lparr>keys = [''P''], values = Mapping.update ''P'' [''p''] Mapping.empty\<rparr>)"
  by code_simp

section \<open>Rendering and the list of pairs\<close>

text \<open>
  Both \<^verbatim>\<open>Encode\<close> methods write the same buffer: the ordered collector renders the list
  of its pairs.
\<close>

lemma writePairs_append: "writePairs (xs @ ys) buf = writePairs ys (writePairs xs buf)"
  by (induction xs arbitrary: buf) auto

lemma writeValues_pairs:
  "writeValues (QueryEscape k) xs buf = writePairs (map (\<lambda>x. \<lparr>Key = k, Value = x\<rparr>) xs) buf"
  by (induction xs arbitrary: buf) auto

lemma writeKeys_pairs:
  "writeKeys m ks buf =
     writePairs
       (concat (map (\<lambda>k. map (\<lambda>x. \<lparr>Key = k, Value = x\<rparr>) (Mapping.lookup_default [] m k)) ks)) buf"
  by (induction ks arbitrary: buf) (auto simp: writePairs_append writeValues_pairs)

lemma is_empty_lookup: "Mapping.is_empty m \<Longrightarrow> Mapping.lookup m k = None"
  unfolding Mapping.is_empty_def by transfer auto

lemma Encode_list_writePairs: "Encode_list ps = writePairs ps []"
  by (cases ps) (simp_all add: Encode_list_def)

lemma lookup_tabulate_all:
  "Mapping.lookup (Mapping.tabulate ks f) k = (if k \<in> set ks then Some (f k) else None)"
  by transfer (simp add: map_of_map_restrict restrict_map_def)

lemma Encode_pairsOf: "Encode v = Encode_list (pairsOf v)"
proof (cases "Mapping.is_empty (values v)")
  case True
  then have "Mapping.lookup_default [] (values v) k = []" for k
    by (simp add: Mapping.lookup_default_def is_empty_lookup)
  then have "pairsOf v = []"
    by (simp add: pairsOf_def)
  with True show ?thesis
    by (simp add: Encode_def Encode_list_writePairs)
next
  case False
  then show ?thesis
    by (simp add: Encode_def Encode_list_writePairs pairsOf_def writeKeys_pairs)
qed

lemma lookup_valuesLoop:
  "Mapping.lookup (valuesLoop m ps) k =
     (if k \<in> Key ` set ps
      then Some (Mapping.lookup_default [] m k @ map Value (filter (\<lambda>p. Key p = k) ps))
      else Mapping.lookup m k)"
proof (induction ps arbitrary: m)
  case Nil
  then show ?case by simp
next
  case (Cons p ps)
  show ?case
    by (auto simp: Cons.IH Mapping.lookup_default_def Mapping.lookup_update'
        filter_empty_conv image_iff split: option.splits)
qed

lemma Values_orderedOfPairs: "Values (orderedOfPairs ps) = Values_list ps"
  by (rule mapping_eqI)
    (auto simp: Values_def orderedOfPairs_def Values_list_def lookup_valuesLoop
      lookup_tabulate_all Mapping.lookup_default_def)

lemma filter_firstOccurrences:
  "filter (\<lambda>y. y \<noteq> k) (firstOccurrences ks) = firstOccurrences (filter (\<lambda>y. y \<noteq> k) ks)"
proof (induction ks)
  case Nil
  then show ?case by simp
next
  case (Cons x ks)
  show ?case
  proof (cases "x = k")
    case True
    have "filter (\<lambda>y. y \<noteq> k) (firstOccurrences (x # ks)) =
          filter (\<lambda>y. y \<noteq> k) (firstOccurrences ks)"
      using True by simp
    with True Cons show ?thesis by simp
  next
    case False
    have "filter (\<lambda>y. y \<noteq> k) (filter (\<lambda>y. y \<noteq> x) (firstOccurrences ks)) =
          filter (\<lambda>y. y \<noteq> x) (filter (\<lambda>y. y \<noteq> k) (firstOccurrences ks))"
      by (simp add: conj_commute)
    with False Cons show ?thesis by simp
  qed
qed

lemma set_firstOccurrences [simp]: "set (firstOccurrences ks) = set ks"
  by (induction ks) auto

lemma distinct_firstOccurrences: "distinct (firstOccurrences ks)"
  by (induction ks) auto

lemma dropWhile_filter_subset:
  "set (dropWhile (\<lambda>y. y = x) (filter P ks)) \<subseteq> set (dropWhile (\<lambda>y. y = x) ks)"
proof (induction ks)
  case Nil
  then show ?case by simp
next
  case (Cons a ks)
  show ?case
  proof (cases "a = x")
    case True
    with Cons show ?thesis by auto
  next
    case False
    have "set (dropWhile (\<lambda>y. y = x) (filter P ks)) \<subseteq> set ks"
      using set_dropWhileD by fastforce
    with False show ?thesis by auto
  qed
qed

lemma contiguous_filter: "contiguous ks \<Longrightarrow> contiguous (filter P ks)"
proof (induction ks)
  case Nil
  then show ?case by simp
next
  case (Cons a ks)
  then show ?case
    using dropWhile_filter_subset [of a P ks] by auto
qed

lemma run_then_rest:
  "x \<notin> f ` set (dropWhile (\<lambda>p. f p = x) ps) \<Longrightarrow>
     filter (\<lambda>p. f p = x) ps @ filter (\<lambda>p. f p \<noteq> x) ps = ps"
proof (induction ps)
  case Nil
  then show ?case by simp
next
  case (Cons p ps)
  show ?case
  proof (cases "f p = x")
    case True
    with Cons show ?thesis by simp
  next
    case False
    with Cons.prems have "x \<notin> f ` set (p # ps)" by simp
    then have "filter (\<lambda>p. f p = x) (p # ps) = []" "filter (\<lambda>p. f p \<noteq> x) (p # ps) = p # ps"
      by (auto simp: filter_empty_conv filter_id_conv)
    then show ?thesis by simp
  qed
qed

lemma groups_concat:
  "contiguous (map f ps) \<Longrightarrow>
     concat (map (\<lambda>k. filter (\<lambda>p. f p = k) ps) (firstOccurrences (map f ps))) = ps"
proof (induction ps rule: length_induct)
  case (1 ps)
  show ?case
  proof (cases ps)
    case Nil
    then show ?thesis by simp
  next
    case (Cons p ps')
    let ?k = "f p"
    let ?rest = "filter (\<lambda>q. f q \<noteq> ?k) ps'"
    have c: "contiguous (map f ps')" and d: "?k \<notin> set (dropWhile (\<lambda>x. x = ?k) (map f ps'))"
      using "1.prems" Cons by simp_all
    have keys: "filter (\<lambda>y. y \<noteq> ?k) (firstOccurrences (map f ps')) = firstOccurrences (map f ?rest)"
      by (simp add: filter_firstOccurrences filter_map comp_def)
    have "contiguous (map f ?rest)"
      using contiguous_filter [OF c, of "\<lambda>y. y \<noteq> ?k"] by (simp add: filter_map comp_def)
    moreover have "length ?rest < length ps"
      using Cons by (simp add: le_imp_less_Suc)
    ultimately have ih: "concat (map (\<lambda>k. filter (\<lambda>q. f q = k) ?rest) (firstOccurrences (map f ?rest))) = ?rest"
      using "1.IH" by blast
    have same: "filter (\<lambda>q. f q = k) (p # ps') = filter (\<lambda>q. f q = k) ?rest"
      if "k \<in> set (firstOccurrences (map f ?rest))" for k
    proof -
      from that have "k \<noteq> ?k" by auto
      then show ?thesis by (auto intro: filter_cong)
    qed
    have "map (\<lambda>k. filter (\<lambda>q. f q = k) (p # ps')) (firstOccurrences (map f ?rest)) =
          map (\<lambda>k. filter (\<lambda>q. f q = k) ?rest) (firstOccurrences (map f ?rest))"
      by (rule map_cong [OF refl]) (rule same)
    then have "concat (map (\<lambda>k. filter (\<lambda>q. f q = k) (p # ps')) (firstOccurrences (map f ?rest))) = ?rest"
      by (simp only: ih)
    moreover have "?k \<notin> f ` set (dropWhile (\<lambda>q. f q = ?k) ps')"
      using d by (simp add: dropWhile_map comp_def)
    then have "filter (\<lambda>q. f q = ?k) ps' @ ?rest = ps'"
      by (rule run_then_rest)
    ultimately show ?thesis
      using Cons keys by simp
  qed
qed

lemma pairsOf_orderedOfPairs:
  "pairsOf (orderedOfPairs ps) =
     concat (map (\<lambda>k. filter (\<lambda>p. Key p = k) ps) (firstOccurrences (map Key ps)))"
proof -
  have "map (\<lambda>x. \<lparr>Key = k, Value = x\<rparr>)
          (Mapping.lookup_default []
             (Mapping.tabulate (map Key ps) (\<lambda>k. map Value (filter (\<lambda>p. Key p = k) ps))) k) =
        filter (\<lambda>p. Key p = k) ps" if "k \<in> set (firstOccurrences (map Key ps))" for k
  proof -
    have "map (\<lambda>x. \<lparr>Key = k, Value = x\<rparr>) (map Value (filter (\<lambda>p. Key p = k) ps)) =
          filter (\<lambda>p. Key p = k) ps"
      by (induction ps) auto
    with that show ?thesis
      by (simp add: Mapping.lookup_default_def lookup_tabulate_all)
  qed
  then have "map (\<lambda>k. map (\<lambda>x. \<lparr>Key = k, Value = x\<rparr>)
          (Mapping.lookup_default []
             (Mapping.tabulate (map Key ps) (\<lambda>k. map Value (filter (\<lambda>p. Key p = k) ps))) k))
          (firstOccurrences (map Key ps)) =
        map (\<lambda>k. filter (\<lambda>p. Key p = k) ps) (firstOccurrences (map Key ps))"
    by (intro map_cong refl)
  then show ?thesis
    by (simp only: pairsOf_def orderedOfPairs_def UrlValues.simps)
qed

text \<open>
  The collector of a list of pairs is the one that the write of the encoder for a field
  with its own encoder builds, pair after pair.
\<close>

lemma firstOccurrences_snoc:
  "firstOccurrences (ks @ [k]) =
     (if k \<in> set ks then firstOccurrences ks else firstOccurrences ks @ [k])"
  by (induction ks) auto

lemma orderedOfPairs_snoc:
  "orderedOfPairs (ps @ [p]) = appendValue (orderedOfPairs ps) (Key p) (Value p)"
proof -
  have "values (orderedOfPairs (ps @ [p])) = values (appendValue (orderedOfPairs ps) (Key p) (Value p))"
    by (rule mapping_eqI)
      (auto simp: orderedOfPairs_def values_appendValue lookup_tabulate_all
        Mapping.lookup_default_def filter_empty_conv image_iff)
  moreover have "keys (orderedOfPairs (ps @ [p])) = keys (appendValue (orderedOfPairs ps) (Key p) (Value p))"
    by (auto simp: orderedOfPairs_def keys_appendValue lookup_tabulate_all firstOccurrences_snoc)
  ultimately show ?thesis by simp
qed

lemma orderedOfPairs_foldl:
  "orderedOfPairs ps =
     foldl (\<lambda>c p. appendValue c (Key p) (Value p)) \<lparr>keys = [], values = Mapping.empty\<rparr> ps"
proof (induction ps rule: rev_induct)
  case Nil
  show ?case
    by (simp add: orderedOfPairs_def) (rule mapping_eqI, simp add: lookup_tabulate_all)
next
  case (snoc p ps)
  then show ?case by (simp add: orderedOfPairs_snoc)
qed

text \<open>
  C10. For a list of pairs in which the pairs of a key are contiguous, the list and the
  ordered collector of the list have the same \<^verbatim>\<open>Values()\<close> map, every key with the same
  values in the same order, and \<^verbatim>\<open>Encode()\<close> renders the same string.
\<close>

theorem list_and_ordered_agree:
  assumes "contiguous (map Key ps)"
  shows "Values (orderedOfPairs ps) = Values_list ps \<and> Encode (orderedOfPairs ps) = Encode_list ps"
  using assms
  by (simp add: Values_orderedOfPairs Encode_pairsOf pairsOf_orderedOfPairs groups_concat)

theorem list_and_ordered_agree_witness:
  "Values (orderedOfPairs [\<lparr>Key = ''a'', Value = ''1''\<rparr>, \<lparr>Key = ''a'', Value = ''2''\<rparr>,
      \<lparr>Key = ''b c'', Value = ''3''\<rparr>]) =
     Values_list [\<lparr>Key = ''a'', Value = ''1''\<rparr>, \<lparr>Key = ''a'', Value = ''2''\<rparr>,
      \<lparr>Key = ''b c'', Value = ''3''\<rparr>] \<and>
   Encode (orderedOfPairs [\<lparr>Key = ''a'', Value = ''1''\<rparr>, \<lparr>Key = ''a'', Value = ''2''\<rparr>,
      \<lparr>Key = ''b c'', Value = ''3''\<rparr>]) = ''a=1&a=2&b+c=3''"
proof -
  have "Encode_list [\<lparr>Key = ''a'', Value = ''1''\<rparr>, \<lparr>Key = ''a'', Value = ''2''\<rparr>,
      \<lparr>Key = ''b c'', Value = ''3''\<rparr>] = ''a=1&a=2&b+c=3''"
    by code_simp
  then show ?thesis
    using list_and_ordered_agree [of "[\<lparr>Key = ''a'', Value = ''1''\<rparr>, \<lparr>Key = ''a'', Value = ''2''\<rparr>,
      \<lparr>Key = ''b c'', Value = ''3''\<rparr>]"]
    by simp
qed

text \<open>
  The two maps agree for every list; the rendered strings need the contiguity.
\<close>

lemma not_contiguous_differs:
  "\<not> contiguous (map Key [\<lparr>Key = ''a'', Value = ''1''\<rparr>, \<lparr>Key = ''b'', Value = ''2''\<rparr>,
      \<lparr>Key = ''a'', Value = ''3''\<rparr>]) \<and>
   Encode (orderedOfPairs [\<lparr>Key = ''a'', Value = ''1''\<rparr>, \<lparr>Key = ''b'', Value = ''2''\<rparr>,
      \<lparr>Key = ''a'', Value = ''3''\<rparr>]) = ''a=1&a=3&b=2'' \<and>
   Encode_list [\<lparr>Key = ''a'', Value = ''1''\<rparr>, \<lparr>Key = ''b'', Value = ''2''\<rparr>,
      \<lparr>Key = ''a'', Value = ''3''\<rparr>] = ''a=1&b=2&a=3''"
  by code_simp

section \<open>The order of the keys\<close>

lemma encodeField_direct:
  assumes "name f \<noteq> ''-''" and "opts f = []" and "fieldStrings e fl f = Some strs"
    and "Mapping.lookup (values c) (name f) = None"
  shows "encodeField e fl f errs c =
           Some (errs, c\<lparr>keys := keys c @ [name f],
                          values := Mapping.update (name f) strs (values c)\<rparr>)"
proof -
  have nsp: "\<not> (isValidStructPointer (val f) \<and> \<not> hasCustomEncoder e (Type (val f)))"
    using assms(3) by (auto simp: fieldStrings_def split: if_splits)
  show ?thesis
  proof (cases "typeEncoder (Type (val f)) (regenc e)")
    case (Some enc)
    with assms(3) nsp obtain s where s: "enc (fieldFlag fl f) (val f) = Some s" "strs = [s]"
      by (auto simp: fieldStrings_def split: option.splits)
    show ?thesis
      using assms(2,4) s
      by (simp add: encodeField_scalar [OF assms(1) nsp Some] Contains_def appendValue_def
          Mapping.lookup_default_def)
  next
    case None
    with assms(3) nsp obtain t' enc where sl: "Kind (Type (val f)) = KSlice"
        "Elem (Type (val f)) = Some t'" "typeEncoder t' (regenc e) = Some enc"
        "encodeElems enc (indexFlag (fieldFlag fl f)) (elems (val f)) [] = Some strs"
      by (auto simp: fieldStrings_def split: option.splits if_splits)
    show ?thesis
      using assms(2,4) sl(4)
      by (simp add: encodeField_slice [OF assms(1) None sl(1,2,3)] Contains_def
          replaceValues_def)
  qed
qed

lemma pairsOf_new_key:
  assumes "k \<notin> set (keys c)"
  shows "pairsOf (c\<lparr>keys := keys c @ [k], values := Mapping.update k strs (values c)\<rparr>) =
           pairsOf c @ map (\<lambda>s. \<lparr>Key = k, Value = s\<rparr>) strs"
proof -
  have "map (\<lambda>k'. map (\<lambda>x. \<lparr>Key = k', Value = x\<rparr>)
               (Mapping.lookup_default [] (Mapping.update k strs (values c)) k')) (keys c) =
        map (\<lambda>k'. map (\<lambda>x. \<lparr>Key = k', Value = x\<rparr>)
               (Mapping.lookup_default [] (values c) k')) (keys c)"
    using assms by (intro map_cong refl) (auto simp: Mapping.lookup_default_def Mapping.lookup_update')
  then have "concat (map (\<lambda>k'. map (\<lambda>x. \<lparr>Key = k', Value = x\<rparr>)
               (Mapping.lookup_default [] (Mapping.update k strs (values c)) k')) (keys c)) =
        pairsOf c"
    unfolding pairsOf_def by (rule arg_cong)
  then show ?thesis
    unfolding pairsOf_def [of "c\<lparr>keys := _, values := _\<rparr>"]
    by (simp add: Mapping.lookup_default_update)
qed

lemma encodeFields_direct:
  assumes "\<forall>f \<in> set fs. name f \<noteq> ''-'' \<longrightarrow> opts f = [] \<and> fieldStrings e fl f \<noteq> None"
    and "distinct (map name (filter (\<lambda>f. name f \<noteq> ''-'') fs))"
    and "\<forall>f \<in> set fs. name f \<noteq> ''-'' \<longrightarrow>
           name f \<notin> set (keys c) \<and> Mapping.lookup (values c) (name f) = None"
  shows "\<exists>c'. encodeFields e fl fs errs c = Some (errs, c') \<and>
           keys c' = keys c @ map name (filter (\<lambda>f. name f \<noteq> ''-'') fs) \<and>
           pairsOf c' = pairsOf c @ concat (map (fieldPairs e fl) (filter (\<lambda>f. name f \<noteq> ''-'') fs)) \<and>
           (\<forall>f \<in> set fs. name f \<noteq> ''-'' \<longrightarrow>
              Mapping.lookup (values c') (name f) = fieldStrings e fl f) \<and>
           (\<forall>k. k \<notin> name ` set fs \<longrightarrow> Mapping.lookup (values c') k = Mapping.lookup (values c) k)"
  using assms
proof (induction fs arbitrary: c)
  case Nil
  then show ?case by simp
next
  case (Cons f fs)
  show ?case
  proof (cases "name f = ''-''")
    case True
    then have "encodeFields e fl (f # fs) errs c = encodeFields e fl fs errs c"
      by (simp add: encodeField_skip)
    moreover obtain c' where "encodeFields e fl fs errs c = Some (errs, c')"
        "keys c' = keys c @ map name (filter (\<lambda>f. name f \<noteq> ''-'') fs)"
        "pairsOf c' = pairsOf c @ concat (map (fieldPairs e fl) (filter (\<lambda>f. name f \<noteq> ''-'') fs))"
        "\<forall>f \<in> set fs. name f \<noteq> ''-'' \<longrightarrow> Mapping.lookup (values c') (name f) = fieldStrings e fl f"
        "\<forall>k. k \<notin> name ` set fs \<longrightarrow> Mapping.lookup (values c') k = Mapping.lookup (values c) k"
      using Cons.IH [of c] Cons.prems True by auto
    ultimately show ?thesis
      using True by auto
  next
    case False
    with Cons.prems(1) obtain strs where strs: "opts f = []" "fieldStrings e fl f = Some strs"
      by auto
    let ?c1 = "c\<lparr>keys := keys c @ [name f], values := Mapping.update (name f) strs (values c)\<rparr>"
    have fresh: "name f \<notin> set (keys c)" "Mapping.lookup (values c) (name f) = None"
      using Cons.prems(3) False by auto
    have step: "encodeField e fl f errs c = Some (errs, ?c1)"
      using False strs fresh(2) by (rule encodeField_direct)
    have other: "\<forall>g \<in> set fs. name g \<noteq> ''-'' \<longrightarrow> name g \<noteq> name f"
      using Cons.prems(2) False by (auto simp: image_iff)
    have "\<forall>g \<in> set fs. name g \<noteq> ''-'' \<longrightarrow>
            name g \<notin> set (keys ?c1) \<and> Mapping.lookup (values ?c1) (name g) = None"
      using Cons.prems(3) other by (auto simp: Mapping.lookup_update')
    moreover have "\<forall>g \<in> set fs. name g \<noteq> ''-'' \<longrightarrow> opts g = [] \<and> fieldStrings e fl g \<noteq> None"
      and "distinct (map name (filter (\<lambda>f. name f \<noteq> ''-'') fs))"
      using Cons.prems(1,2) False by auto
    ultimately obtain c' where c': "encodeFields e fl fs errs ?c1 = Some (errs, c')"
        "keys c' = keys ?c1 @ map name (filter (\<lambda>f. name f \<noteq> ''-'') fs)"
        "pairsOf c' = pairsOf ?c1 @ concat (map (fieldPairs e fl) (filter (\<lambda>f. name f \<noteq> ''-'') fs))"
        "\<forall>g \<in> set fs. name g \<noteq> ''-'' \<longrightarrow> Mapping.lookup (values c') (name g) = fieldStrings e fl g"
        "\<forall>k. k \<notin> name ` set fs \<longrightarrow> Mapping.lookup (values c') k = Mapping.lookup (values ?c1) k"
      using Cons.IH [of ?c1] by blast
    have nf: "name f \<notin> name ` set fs"
      using other False by auto
    have "encodeFields e fl (f # fs) errs c = Some (errs, c')"
      using step c'(1) by simp
    moreover have "keys c' = keys c @ map name (filter (\<lambda>f. name f \<noteq> ''-'') (f # fs))"
      using c'(2) False by simp
    moreover have "pairsOf c' =
        pairsOf c @ concat (map (fieldPairs e fl) (filter (\<lambda>f. name f \<noteq> ''-'') (f # fs)))"
      using c'(3) False strs(2) pairsOf_new_key [OF fresh(1), of strs]
      by (simp add: fieldPairs_def)
    moreover have "Mapping.lookup (values c') (name f) = fieldStrings e fl f"
      using c'(5) nf strs(2) by simp
    moreover have "\<forall>k. k \<notin> name ` set (f # fs) \<longrightarrow>
        Mapping.lookup (values c') k = Mapping.lookup (values c) k"
      using c'(5) by (auto simp: Mapping.lookup_update')
    ultimately show ?thesis
      using c'(4) by auto
  qed
qed

text \<open>
  C4, as amended. Take a struct whose fields with an alias other than \<^verbatim>\<open>-\<close> carry no
  options, have distinct aliases, and are each encoded under their own alias: by an
  encoder of the field's type, or as a slice with an encoder for the elements, none of
  which panics. Then \<^verbatim>\<open>EncodeValues\<close> returns a collector and no error; the key order of
  the collector is the aliases in declaration order, without the fields of alias \<^verbatim>\<open>-\<close>;
  every alias has the strings of its field; and \<^verbatim>\<open>Encode\<close> renders the pairs of the
  fields in declaration order.
\<close>

theorem keys_in_declaration_order:
  assumes "Kind t = KStruct"
    and "\<forall>f \<in> set fs. name f \<noteq> ''-'' \<longrightarrow> opts f = [] \<and> fieldStrings e NoRO f \<noteq> None"
    and "distinct (map name (filter (\<lambda>f. name f \<noteq> ''-'') fs))"
  shows "\<exists>c. EncodeValues e (Some (VStruct t z fs)) = Some (Some c, None) \<and>
           keys c = map name (filter (\<lambda>f. name f \<noteq> ''-'') fs) \<and>
           (\<forall>f \<in> set fs. name f \<noteq> ''-'' \<longrightarrow>
              Mapping.lookup (values c) (name f) = fieldStrings e NoRO f) \<and>
           Encode c = Encode_list (concat (map (fieldPairs e NoRO) (filter (\<lambda>f. name f \<noteq> ''-'') fs)))"
proof -
  let ?c0 = "\<lparr>keys = [], values = Mapping.empty\<rparr>"
  have "\<forall>f \<in> set fs. name f \<noteq> ''-'' \<longrightarrow>
          name f \<notin> set (keys ?c0) \<and> Mapping.lookup (values ?c0) (name f) = None"
    by simp
  from encodeFields_direct [OF assms(2,3) this, where errs = "[]"]
  obtain c where c: "encodeFields e NoRO fs [] ?c0 = Some ([], c)"
      "keys c = map name (filter (\<lambda>f. name f \<noteq> ''-'') fs)"
      "pairsOf c = concat (map (fieldPairs e NoRO) (filter (\<lambda>f. name f \<noteq> ''-'') fs))"
      "\<forall>f \<in> set fs. name f \<noteq> ''-'' \<longrightarrow> Mapping.lookup (values c) (name f) = fieldStrings e NoRO f"
    by (auto simp: pairsOf_def)
  have "encode e NoRO (Some (VStruct t z fs)) ?c0 = Some (None, c)"
    using assms(1) c(1) by (simp add: encode.simps)
  then have "EncodeValues e (Some (VStruct t z fs)) = Some (Some c, None)"
    by (simp add: EncodeValues_def)
  with c show ?thesis
    by (simp add: Encode_pairsOf)
qed

theorem keys_in_declaration_order_witness:
  "\<exists>c. EncodeValues NewEncoder
          (Some (VStruct (TStruct ''main.S'') None
             [Field ''Name'' [] True False (VString TString ''a''),
              Field ''Tags'' [] True False (VSlice (TSlice TString) (Some [VString TString ''x'', VString TString ''y''])),
              Field ''-'' [] True False (VString TString ''ignored'')])) = Some (Some c, None) \<and>
        keys c = [''Name'', ''Tags''] \<and>
        Mapping.lookup (values c) ''Name'' = Some [''a''] \<and>
        Mapping.lookup (values c) ''Tags'' = Some [''x'', ''y''] \<and>
        Encode c = ''Name=a&Tags=x&Tags=y''"
proof -
  have s: "fieldStrings NewEncoder NoRO (Field ''Name'' [] True False (VString TString ''a'')) = Some [''a'']"
    "fieldStrings NewEncoder NoRO
       (Field ''Tags'' [] True False (VSlice (TSlice TString) (Some [VString TString ''x'', VString TString ''y'']))) =
     Some [''x'', ''y'']"
    by code_simp+
  have e: "Encode_list [\<lparr>Key = ''Name'', Value = ''a''\<rparr>, \<lparr>Key = ''Tags'', Value = ''x''\<rparr>,
      \<lparr>Key = ''Tags'', Value = ''y''\<rparr>] = ''Name=a&Tags=x&Tags=y''"
    by code_simp
  show ?thesis
    using keys_in_declaration_order [where t = "TStruct ''main.S''"
        and fs = "[Field ''Name'' [] True False (VString TString ''a''),
          Field ''Tags'' [] True False (VSlice (TSlice TString) (Some [VString TString ''x'', VString TString ''y''])),
          Field ''-'' [] True False (VString TString ''ignored'')]" and e = NewEncoder and z = None]
    by (simp add: s e fieldPairs_def)
qed

text \<open>
  As the claim states it, for every struct with distinct aliases and no options, it fails
  on a field that is a struct: the fields of the inner struct are written under their own
  aliases, at the place of the outer field. Here the inner \<^verbatim>\<open>C\<close> makes the key \<^verbatim>\<open>C\<close>
  come before \<^verbatim>\<open>B\<close>, against the declaration order \<^verbatim>\<open>X\<close>, \<^verbatim>\<open>B\<close>, \<^verbatim>\<open>C\<close>, and no key
  \<^verbatim>\<open>X\<close> is rendered.
\<close>

theorem keys_in_declaration_order_counterexample:
  "distinct [''X'', ''B'', ''C''] \<and>
   EncodeValues NewEncoder
     (Some (VStruct (TStruct ''main.S'') None
        [Field ''X'' [] True False (VStruct (TStruct ''main.Inner'') None [Field ''C'' [] True False (VString TString ''1'')]),
         Field ''B'' [] True False (VString TString ''2''),
         Field ''C'' [] True False (VString TString ''3'')])) =
     Some (Some \<lparr>keys = [''C'', ''B''],
                  values = Mapping.update ''B'' [''2''] (Mapping.update ''C'' [''1'', ''3''] Mapping.empty)\<rparr>,
           None) \<and>
   Encode \<lparr>keys = [''C'', ''B''],
           values = Mapping.update ''B'' [''2''] (Mapping.update ''C'' [''1'', ''3''] Mapping.empty)\<rparr> =
     ''C=1&C=3&B=2''"
  by code_simp

section \<open>Errors of fields and the output of the others\<close>

text \<open>
  The composite error only grows along the loop, so the key of a field that fails is in
  the composite error that \<^verbatim>\<open>encode\<close> returns.
\<close>

lemma encodeField_errors_grow:
  assumes "encodeField e fl f errs vals = Some (errs', vals')"
  shows "fst ` set errs \<subseteq> fst ` set errs'"
proof -
  have "errs' = errs \<or> (\<exists>k x. errs' = AList.update k x errs)"
    using assms
    by (force simp: encodeField.simps recordError_def split: if_splits option.splits prod.splits)
  then show ?thesis
    by (elim disjE exE) (simp_all add: dom_update subset_insertI)
qed

lemma encodeFields_errors_grow:
  "encodeFields e fl fs errs vals = Some (errs', vals') \<Longrightarrow> fst ` set errs \<subseteq> fst ` set errs'"
proof (induction fs arbitrary: errs vals)
  case Nil
  then show ?case by simp
next
  case (Cons f fs)
  then obtain e1 v1 where 1: "encodeField e fl f errs vals = Some (e1, v1)"
      and 2: "encodeFields e fl fs e1 v1 = Some (errs', vals')"
    by (auto split: option.splits)
  from encodeField_errors_grow [OF 1] Cons.IH [OF 2] show ?case by blast
qed

lemma encodeFields_append:
  "encodeFields e fl (xs @ ys) errs vals =
     (case encodeFields e fl xs errs vals of
        None \<Rightarrow> None
      | Some (e1, v1) \<Rightarrow> encodeFields e fl ys e1 v1)"
  by (induction xs arbitrary: errs vals) (auto split: option.splits)

lemma encode_struct:
  assumes "vKind v = KStruct"
  shows "encode e fl v vals =
           (case encodeFields e fl (vFields v) [] vals of
              None \<Rightarrow> None
            | Some (errors, vals') \<Rightarrow>
                Some (if errors \<noteq> [] then Some (MultiError errors) else None, vals'))"
  using assms by (simp add: encode.simps cong: option.case_cong)

lemma fails_recorded:
  assumes "fails e f k"
    and "f \<in> set fs" and "encodeFields e fl fs errs vals = Some (errs', vals')"
  shows "k \<in> fst ` set errs'"
  using assms
proof (induction arbitrary: fl fs errs vals errs' vals' rule: fails.induct)
  case (leaf f)
  from leaf(2) obtain xs ys where fs: "fs = xs @ f # ys"
    by (auto dest: split_list)
  with leaf(3) obtain e1 v1 where
    "encodeFields e fl ys (AList.update (TypeString (Type (val f))) (ErrNoEncoder (val f)) e1) v1 =
       Some (errs', vals')"
    using leaf(1) by (auto simp: encodeFields_append encodeField_unencodable split: option.splits)
  from encodeFields_errors_grow [OF this] show ?case
    by (auto simp: dom_update)
next
  case (inner f g k)
  from inner.prems(1) obtain xs ys where fs: "fs = xs @ f # ys"
    by (auto dest: split_list)
  with inner.prems(2) obtain e1 v1 e2 v2 where
    step: "encodeField e fl f e1 v1 = Some (e2, v2)" and rest: "encodeFields e fl ys e2 v2 = Some (errs', vals')"
    by (auto simp: encodeFields_append split: option.splits)
  from step inner.hyps(1,2,3) obtain err where
    enc: "encode e (fieldFlag fl f) (Some (val f)) v1 = Some (err, v2)"
    and e2: "e2 = recordError (TypeString (Type (val f))) err e1"
    by (auto simp: encodeField_struct split: option.splits)
  from enc inner.hyps(3) obtain errors where
    inn: "encodeFields e (fieldFlag fl f) (vFields (Some (val f))) [] v1 = Some (errors, v2)"
    and err: "err = (if errors \<noteq> [] then Some (MultiError errors) else None)"
    by (auto simp: encode_struct split: option.splits)
  from inner.IH [OF inner.hyps(4) inn] have "errors \<noteq> []" by auto
  with err e2 have "TypeString (Type (val f)) \<in> fst ` set e2"
    by (simp add: recordError_def dom_update)
  with encodeFields_errors_grow [OF rest] show ?case by blast
next
  case (pointee f g k)
  from pointee.prems(1) obtain xs ys where fs: "fs = xs @ f # ys"
    by (auto dest: split_list)
  with pointee.prems(2) obtain e1 v1 e2 v2 where
    step: "encodeField e fl f e1 v1 = Some (e2, v2)" and rest: "encodeFields e fl ys e2 v2 = Some (errs', vals')"
    by (auto simp: encodeFields_append split: option.splits)
  from step pointee.hyps(1,2,3) obtain err where
    enc: "encode e (fieldFlag fl f) (vElem (Some (val f))) v1 = Some (err, v2)"
    and e2: "e2 = recordError (vTypeString (vElem (Some (val f)))) err e1"
    by (auto simp: encodeField_struct_pointer split: option.splits)
  have "vKind (vElem (Some (val f))) = KStruct"
    using pointee.hyps(2) by (simp add: isValidStructPointer_def)
  with enc obtain errors where
    inn: "encodeFields e (fieldFlag fl f) (vFields (vElem (Some (val f)))) [] v1 = Some (errors, v2)"
    and err: "err = (if errors \<noteq> [] then Some (MultiError errors) else None)"
    by (auto simp: encode_struct split: option.splits)
  from pointee.IH [OF pointee.hyps(4) inn] have "errors \<noteq> []" by auto
  with err e2 have "vTypeString (vElem (Some (val f))) \<in> fst ` set e2"
    by (simp add: recordError_def dom_update)
  with encodeFields_errors_grow [OF rest] show ?case by blast
qed

text \<open>
  The fields for which no encoder is found can be left out, at every depth, without
  changing what \<^verbatim>\<open>encode\<close> writes: the traversal of the pruned value returns exactly
  when the traversal of the value does, with the same collector and with no composite
  error.
\<close>

lemma Type_prune [simp]: "Type (prune e v) = Type v"
  by (cases "(e, v)" rule: prune.cases) simp_all

lemma vFields_prune: "vFields (Some (prune e v)) = pruneFields e (vFields (Some v))"
  by (cases "(e, v)" rule: prune.cases) simp_all

lemma vElem_prune: "vElem (Some (prune e v)) = map_option (prune e) (vElem (Some v))"
  by (cases "(e, v)" rule: prune.cases) simp_all

lemma isValidStructPointer_prune [simp]:
  "isValidStructPointer (prune e v) = isValidStructPointer v"
  by (simp add: isValidStructPointer_def vElem_prune) (cases "vElem (Some v)"; simp)

lemma pruneFields_Cons:
  "pruneFields e (f # fs) =
     (if unencodable e f then pruneFields e fs else pruneField e f # pruneFields e fs)"
  by (cases f) (simp add: pruneField_def)

lemma encodeField_fresh_errors:
  assumes "\<not> traversed e f" and "\<not> unencodable e f"
  shows "encodeField e fl f errs0 vals =
           map_option (\<lambda>(errs', c). (errs0, c)) (encodeField e fl f errs vals)"
proof -
  consider (skip) "name f = ''-''"
    | (scalar) enc where "name f \<noteq> ''-''"
        "\<not> (isValidStructPointer (val f) \<and> \<not> hasCustomEncoder e (Type (val f)))"
        "typeEncoder (Type (val f)) (regenc e) = Some enc"
    | (slice) t' enc where "name f \<noteq> ''-''" "typeEncoder (Type (val f)) (regenc e) = None"
        "Kind (Type (val f)) = KSlice" "Elem (Type (val f)) = Some t'"
        "typeEncoder t' (regenc e) = Some enc"
  proof (cases "name f = ''-''")
    case True
    with skip show ?thesis by blast
  next
    case n: False
    show ?thesis
    proof (cases "typeEncoder (Type (val f)) (regenc e)")
      case (Some enc)
      with n assms(1) scalar show ?thesis
        by (auto simp: traversed_def)
    next
      case None
      with n assms(1) have k: "Kind (Type (val f)) \<noteq> KStruct"
        by (auto simp: traversed_def)
      with None n assms(2) obtain t' where "Kind (Type (val f)) = KSlice"
          "Elem (Type (val f)) = Some t'" "typeEncoder t' (regenc e) \<noteq> None"
        by (auto simp: unencodable_def split: option.splits)
      with None n slice show ?thesis by blast
    qed
  qed
  then show ?thesis
  proof cases
    case skip
    then show ?thesis by (simp add: encodeField_skip)
  next
    case scalar
    show ?thesis
      by (simp add: encodeField_scalar [OF scalar] split: option.splits)
  next
    case slice
    show ?thesis
      by (simp add: encodeField_slice [OF slice] split: option.splits)
  qed
qed

lemma prune_encode:
  "encode e fl (map_option (prune e) v) vals =
     map_option (\<lambda>(r, c). (case r of Some (MultiError x) \<Rightarrow> None | _ \<Rightarrow> r, c))
       (encode e fl v vals)"
  "\<forall>errs0. encodeFields e fl (pruneFields e fs) errs0 vals =
     map_option (\<lambda>(errs', c). (errs0, c)) (encodeFields e fl fs errs vals)"
  "\<forall>errs0. \<not> unencodable e f \<longrightarrow> encodeField e fl (pruneField e f) errs0 vals =
     map_option (\<lambda>(errs', c). (errs0, c)) (encodeField e fl f errs vals)"
proof (induction e fl v vals and e fl fs errs vals and e fl f errs vals
    rule: encode_encodeFields_encodeField.induct)
  case (1 e fl v vals)
  let ?v' = "if vKind v = KPtr then vElem v else v"
  let ?p = "map_option (prune e) v"
  let ?p' = "if vKind ?p = KPtr then vElem ?p else ?p"
  have k: "vKind ?p = vKind v"
    by (cases v) simp_all
  have p': "?p' = map_option (prune e) ?v'"
    by (cases v) (simp_all add: vElem_prune)
  then have k': "vKind ?p' = vKind ?v'"
    by (cases ?v') simp_all
  have f: "vFields ?p' = pruneFields e (vFields ?v')"
    unfolding p' by (cases ?v') (simp_all add: vFields_prune)
  show ?case
  proof (cases "vKind ?v' = KStruct")
    case False
    with k' show ?thesis
      by (simp add: encode.simps [of e fl ?p] encode.simps [of e fl v] Let_def)
  next
    case True
    from "1.IH" [OF refl] True
    have "encodeFields e fl (pruneFields e (vFields ?v')) [] vals =
        map_option (\<lambda>(errs', c). ([], c)) (encodeFields e fl (vFields ?v') [] vals)"
      by simp
    with True k' f show ?thesis
      by (simp add: encode.simps [of e fl ?p] encode.simps [of e fl v] Let_def
          split: option.splits)
  qed
next
  case (2 e fl errors vals)
  then show ?case by simp
next
  case (3 e fl f fs errors vals)
  show ?case
  proof (intro allI)
    fix errs0
    show "encodeFields e fl (pruneFields e (f # fs)) errs0 vals =
        map_option (\<lambda>(errs', c). (errs0, c)) (encodeFields e fl (f # fs) errors vals)"
    proof (cases "unencodable e f")
      case True
      then have s: "encodeField e fl f errors vals =
          Some (AList.update (TypeString (Type (val f))) (ErrNoEncoder (val f)) errors, vals)"
        by (rule encodeField_unencodable)
      from "3.IH"(2) [OF s refl] True s show ?thesis
        by (simp add: pruneFields_Cons)
    next
      case False
      with "3.IH"(1) have h: "encodeField e fl (pruneField e f) errs0 vals =
          map_option (\<lambda>(errs', c). (errs0, c)) (encodeField e fl f errors vals)"
        by blast
      show ?thesis
      proof (cases "encodeField e fl f errors vals")
        case None
        with h False show ?thesis
          by (simp add: pruneFields_Cons)
      next
        case (Some r)
        obtain e1 c1 where r: "r = (e1, c1)" by (cases r)
        from "3.IH"(2) [OF Some r [symmetric]] Some r h False show ?thesis
          by (simp add: pruneFields_Cons)
      qed
    qed
  qed
next
  case (4 e fl f errors vals)
  show ?case
  proof (intro allI impI)
    fix errs0
    assume u: "\<not> unencodable e f"
    show "encodeField e fl (pruneField e f) errs0 vals =
        map_option (\<lambda>(errs', c). (errs0, c)) (encodeField e fl f errors vals)"
    proof (cases "traversed e f")
      case False
      then show ?thesis
        using encodeField_fresh_errors [OF False u] by (simp add: pruneField_def)
    next
      case True
      let ?g = "pruneField e f"
      have g: "name ?g = name f" "opts ?g = opts f" "val ?g = prune e (val f)"
          "fieldFlag fl ?g = fieldFlag fl f"
        using True by (simp_all add: pruneField_def fieldFlag_def)
      from True have n: "name f \<noteq> ''-''"
        by (simp add: traversed_def)
      show ?thesis
      proof (cases "isValidStructPointer (val f) \<and> \<not> hasCustomEncoder e (Type (val f))")
        case p: True
        then have ks: "vKind (vElem (Some (val f))) = KStruct"
          by (simp add: isValidStructPointer_def)
        from "4.IH"(1) [OF n p]
        have ih: "encode e (fieldFlag fl f) (map_option (prune e) (vElem (Some (val f)))) vals =
            map_option (\<lambda>(r, c). (case r of Some (MultiError x) \<Rightarrow> None | _ \<Rightarrow> r, c))
              (encode e (fieldFlag fl f) (vElem (Some (val f))) vals)" .
        have full: "encodeField e fl f errors vals =
            (case encode e (fieldFlag fl f) (vElem (Some (val f))) vals of
               None \<Rightarrow> None
             | Some (err, vals') \<Rightarrow>
                 Some (recordError (vTypeString (vElem (Some (val f)))) err errors, vals'))"
          using n p by (simp add: encodeField_struct_pointer)
        have pruned: "encodeField e fl ?g errs0 vals =
            (case encode e (fieldFlag fl f) (map_option (prune e) (vElem (Some (val f)))) vals of
               None \<Rightarrow> None
             | Some (err, vals') \<Rightarrow>
                 Some (recordError (vTypeString (vElem (Some (prune e (val f))))) err errs0, vals'))"
          using n p g
          by (subst encodeField_struct_pointer [of ?g e]) (simp_all add: vElem_prune cong: option.case_cong)
        show ?thesis
          unfolding full pruned ih using ks
          by (auto simp: encode_struct recordError_def split: option.splits)
      next
        case np: False
        with True have s: "typeEncoder (Type (val f)) (regenc e) = None"
            "Kind (Type (val f)) = KStruct"
          by (auto simp: traversed_def)
        have np': "\<not> (isValidStructPointer (val f) \<and> \<not> hasCustomEncoder e (Type (val f)))"
          using np .
        from "4.IH"(2) [OF n np' s(1) s(2)]
        have ih: "encode e (fieldFlag fl f) (map_option (prune e) (Some (val f))) vals =
            map_option (\<lambda>(r, c). (case r of Some (MultiError x) \<Rightarrow> None | _ \<Rightarrow> r, c))
              (encode e (fieldFlag fl f) (Some (val f)) vals)" .
        have full: "encodeField e fl f errors vals =
            (case encode e (fieldFlag fl f) (Some (val f)) vals of
               None \<Rightarrow> None
             | Some (err, vals') \<Rightarrow>
                 Some (recordError (TypeString (Type (val f))) err errors, vals'))"
          using n s by (simp add: encodeField_struct)
        have pruned: "encodeField e fl ?g errs0 vals =
            (case encode e (fieldFlag fl f) (map_option (prune e) (Some (val f))) vals of
               None \<Rightarrow> None
             | Some (err, vals') \<Rightarrow>
                 Some (recordError (TypeString (Type (val f))) err errs0, vals'))"
          using n s g
          by (subst encodeField_struct [of ?g e]) (simp_all cong: option.case_cong)
        have ks: "vKind (Some (val f)) = KStruct"
          using s(2) by simp
        show ?thesis
          unfolding full pruned ih using ks
          by (auto simp: encode_struct recordError_def split: option.splits)
      qed
    qed
  qed
qed

lemma prune_returns:
  "encode e fl (Some v) vals = None \<longleftrightarrow> encode e fl (Some (prune e v)) vals = None"
  using prune_encode(1) [of e fl "Some v" vals] by simp

text \<open>No field of a pruned struct fails.\<close>

lemma set_pruneFields:
  "set (pruneFields e fs) = pruneField e ` {f \<in> set fs. \<not> unencodable e f}"
  by (induction fs) (auto simp: pruneFields_Cons)

lemma pruneField_sel [simp]:
  "name (pruneField e f) = name f" "Type (val (pruneField e f)) = Type (val f)"
  by (simp_all add: pruneField_def)

lemma unencodable_pruneField [simp]: "unencodable e (pruneField e f) = unencodable e f"
  by (simp add: unencodable_def cong: option.case_cong)

lemma traversed_pruneField [simp]: "traversed e (pruneField e f) = traversed e f"
  by (simp add: traversed_def) (simp add: pruneField_def)

lemma val_pruneField: "traversed e f \<Longrightarrow> val (pruneField e f) = prune e (val f)"
  by (simp add: pruneField_def)

lemma prune_no_fails:
  assumes "fails e f k"
  shows "f \<notin> set (pruneFields e fs)"
  using assms
proof (induction arbitrary: fs rule: fails.induct)
  case (leaf f)
  then show ?case
    by (auto simp: set_pruneFields)
next
  case (inner f g k)
  show ?case
  proof
    assume "f \<in> set (pruneFields e fs)"
    then obtain f0 where f0: "f = pruneField e f0"
      by (auto simp: set_pruneFields)
    from inner.hyps(1,2,3) have "traversed e f"
      by (simp add: traversed_def)
    with f0 have "traversed e f0" by simp
    with f0 have "val f = prune e (val f0)"
      by (simp add: val_pruneField)
    with inner.hyps(4) have "g \<in> set (pruneFields e (vFields (Some (val f0))))"
      by (simp add: vFields_prune)
    with inner.IH show False by blast
  qed
next
  case (pointee f g k)
  show ?case
  proof
    assume "f \<in> set (pruneFields e fs)"
    then obtain f0 where f0: "f = pruneField e f0"
      by (auto simp: set_pruneFields)
    from pointee.hyps(1,2,3) have "traversed e f"
      by (simp add: traversed_def)
    with f0 have "traversed e f0" by simp
    with f0 have v: "val f = prune e (val f0)"
      by (simp add: val_pruneField)
    from pointee.hyps(2) v obtain p where p: "vElem (Some (val f0)) = Some p"
      by (cases "vElem (Some (val f0))") (auto simp: isValidStructPointer_def vElem_prune)
    with v have "vElem (Some (val f)) = Some (prune e p)"
      by (simp add: vElem_prune)
    with pointee.hyps(4) have "g \<in> set (pruneFields e (vFields (Some p)))"
      by (simp add: vFields_prune)
    with pointee.IH show False by blast
  qed
qed

text \<open>
  C2, as amended. Take a struct with a field that fails to encode, and let the traversal
  of the struct without the fields that have no encoder, removed at every depth, return
  (no encoder panics) with the collector \<open>vals'\<close>; no field of what is left fails, and
  the traversal returns no error. Then \<^verbatim>\<open>encode\<close>
  of the whole struct returns too, with a composite error that is not empty and has an
  entry under the key of every field that fails, and with the same collector \<open>vals'\<close>:
  what the other fields wrote, those of the nested structs with a failing field among
  them, is all there, in the same order. \<^verbatim>\<open>Encode\<close> of the encoder leaves it in the map
  of the caller; \<^verbatim>\<open>EncodeValues\<close> returns the composite error and no collector.
\<close>

theorem best_effort:
  assumes "Kind t = KStruct"
    and "g \<in> set fs" and "fails e g j"
    and "encode e fl (Some (prune e (VStruct t z fs))) vals = Some (r, vals')"
  shows "(\<forall>f k. f \<in> set (pruneFields e fs) \<longrightarrow> \<not> fails e f k) \<and> r = None \<and>
         (\<exists>errs. encode e fl (Some (VStruct t z fs)) vals = Some (Some (MultiError errs), vals') \<and>
            errs \<noteq> [] \<and>
            (\<forall>f k. f \<in> set fs \<longrightarrow> fails e f k \<longrightarrow> k \<in> fst ` set errs) \<and>
            (fl = NoRO \<longrightarrow> keys vals = [] \<longrightarrow>
               Encoder_Encode e (Some (VStruct t z fs)) (values vals) =
                 Some (Some (MultiError errs), values vals')) \<and>
            (fl = NoRO \<longrightarrow> vals = \<lparr>keys = [], values = Mapping.empty\<rparr> \<longrightarrow>
               EncodeValues e (Some (VStruct t z fs)) = Some (None, Some (MultiError errs))))"
proof -
  let ?v = "Some (VStruct t z fs)"
  from prune_encode(1) [of e fl ?v vals] assms(4)
  obtain r0 where full0: "encode e fl ?v vals = Some (r0, vals')"
    and r: "r = (case r0 of Some (MultiError x) \<Rightarrow> None | _ \<Rightarrow> r0)"
    by (cases "encode e fl ?v vals") auto
  from full0 assms(1) obtain errs where full: "encodeFields e fl fs [] vals = Some (errs, vals')"
    and r0: "r0 = (if errs \<noteq> [] then Some (MultiError errs) else None)"
    by (auto simp: encode_struct split: option.splits)
  have rec: "k \<in> fst ` set errs" if "f \<in> set fs" "fails e f k" for f k
    using fails_recorded [OF that(2,1) full] .
  from rec [OF assms(2,3)] have ne: "errs \<noteq> []" by auto
  have enc: "encode e fl ?v vals = Some (Some (MultiError errs), vals')"
    using full0 r0 ne by simp
  have none: "r = None"
    using r r0 ne by simp
  have "Encoder_Encode e ?v (values vals) = Some (Some (MultiError errs), values vals')"
    if "fl = NoRO" "keys vals = []"
  proof -
    from that have eq: "\<lparr>keys = [], values = values vals\<rparr> = vals" by simp
    show ?thesis
      unfolding Encoder_Encode_def eq using enc that(1) by simp
  qed
  moreover have "EncodeValues e ?v = Some (None, Some (MultiError errs))"
    if "fl = NoRO" "vals = \<lparr>keys = [], values = Mapping.empty\<rparr>"
    using that enc by (simp add: EncodeValues_def)
  moreover have "\<not> fails e f k" if "f \<in> set (pruneFields e fs)" for f k
    using that prune_no_fails [of e f k fs] by blast
  ultimately show ?thesis
    using enc ne rec none by blast
qed

theorem best_effort_witness:
  "\<exists>errs. encode NewEncoder NoRO
       (Some (VStruct (TStruct ''main.T'') None
          [Field ''A'' [] True False (VString TString ''a''),
           Field ''Q'' [] True False
             (VStruct (TStruct ''main.In'') None
                [Field ''B'' [] True False (VInt TInt 2),
                 Field ''M'' [] True False (VMap (TMap TString TInt) None)]),
           Field ''Z'' [] True False (VInt TInt 7)]))
       \<lparr>keys = [], values = Mapping.empty\<rparr> =
     Some (Some (MultiError errs),
           \<lparr>keys = [''A'', ''B'', ''Z''],
            values = Mapping.update ''Z'' [''7'']
              (Mapping.update ''B'' [''2''] (Mapping.update ''A'' [''a''] Mapping.empty))\<rparr>) \<and>
     errs \<noteq> [] \<and> ''main.In'' \<in> fst ` set errs \<and>
     EncodeValues NewEncoder
       (Some (VStruct (TStruct ''main.T'') None
          [Field ''A'' [] True False (VString TString ''a''),
           Field ''Q'' [] True False
             (VStruct (TStruct ''main.In'') None
                [Field ''B'' [] True False (VInt TInt 2),
                 Field ''M'' [] True False (VMap (TMap TString TInt) None)]),
           Field ''Z'' [] True False (VInt TInt 7)])) = Some (None, Some (MultiError errs))"
proof -
  let ?A = "Field ''A'' [] True False (VString TString ''a'')"
  let ?B = "Field ''B'' [] True False (VInt TInt 2)"
  let ?M = "Field ''M'' [] True False (VMap (TMap TString TInt) None)"
  let ?Q = "Field ''Q'' [] True False (VStruct (TStruct ''main.In'') None [?B, ?M])"
  let ?Z = "Field ''Z'' [] True False (VInt TInt 7)"
  let ?c = "\<lparr>keys = [''A'', ''B'', ''Z''],
            values = Mapping.update ''Z'' [''7'']
              (Mapping.update ''B'' [''2''] (Mapping.update ''A'' [''a''] Mapping.empty))\<rparr>"
  have p: "encode NewEncoder NoRO
      (Some (prune NewEncoder (VStruct (TStruct ''main.T'') None [?A, ?Q, ?Z])))
      \<lparr>keys = [], values = Mapping.empty\<rparr> = Some (None, ?c)"
    by code_simp
  have u: "unencodable NewEncoder ?M"
    by (simp add: unencodable_def NewEncoder_def typeEncoder_builtin)
  have f: "fails NewEncoder ?Q ''main.In''"
    using fails.inner [of ?Q NewEncoder ?M, OF _ _ _ _ fails.leaf [OF u]]
    by (simp add: NewEncoder_def typeEncoder_builtin)
  from best_effort [where t = "TStruct ''main.T''" and e = NewEncoder and z = None
      and fs = "[?A, ?Q, ?Z]" and fl = NoRO and vals = "\<lparr>keys = [], values = Mapping.empty\<rparr>"
      and r = None and vals' = ?c and g = ?Q and j = "''main.In''"] p f
  show ?thesis by auto
qed

text \<open>
  As the claim states it, with the pairs of the other fields in the collector handed back
  to the caller, it fails for \<^verbatim>\<open>EncodeValues\<close>: when a field fails it returns the error and
  a nil collector, so the pair of the field \<^verbatim>\<open>A\<close>, which \<^verbatim>\<open>encode\<close> has written, is not
  handed back.
\<close>

theorem best_effort_counterexample:
  "EncodeValues NewEncoder
     (Some (VStruct (TStruct ''main.S'') None
        [Field ''A'' [] True False (VString TString ''a''),
         Field ''M'' [] True False (VMap (TMap TString TInt) None)])) =
     Some (None, Some (MultiError [(''map[string]int'', ErrNoEncoder (VMap (TMap TString TInt) None))])) \<and>
   encode NewEncoder NoRO
     (Some (VStruct (TStruct ''main.S'') None
        [Field ''A'' [] True False (VString TString ''a''),
         Field ''M'' [] True False (VMap (TMap TString TInt) None)]))
     \<lparr>keys = [], values = Mapping.empty\<rparr> =
     Some (Some (MultiError [(''map[string]int'', ErrNoEncoder (VMap (TMap TString TInt) None))]),
           \<lparr>keys = [''A''], values = Mapping.update ''A'' [''a''] Mapping.empty\<rparr>)"
  by code_simp

end
